theory Spec2Isabelle
  imports Complex_Main
begin

section \<open>SERD.c: the voxel engine\<close>

text \<open>
  A shallow embedding of \<^verbatim>\<open>src/C/SERD.c\<close>.

  \<^item> \<^verbatim>\<open>int *grid\<close> is a store: a function from the offset added to the pointer to the
    \<^verbatim>\<open>int\<close> held there. The voxel \<open>(i, j, k)\<close> lives at offset \<open>k + nz * (j + ny * i)\<close>.
    \<^verbatim>\<open>double *atoms\<close>, \<^verbatim>\<open>double *reference\<close>, \<^verbatim>\<open>double *sincos\<close> and \<^verbatim>\<open>char **pdb\<close> are
    stores in the same way.
  \<^item> C's \<^verbatim>\<open>int\<close> is \<open>int\<close>. The voxel indices, tags and counters stay far below \<open>2^31\<close> on
    every grid that fits in memory, so no wrap-around is written out for them. The loop
    variables of \<^verbatim>\<open>fill\<close> and \<^verbatim>\<open>_interface\<close> are another matter: they start from a \<^verbatim>\<open>double\<close>
    that depends on the atom, and the conversion of a \<^verbatim>\<open>double\<close> outside the range of
    \<^verbatim>\<open>int\<close>, like the increment of \<^verbatim>\<open>INT_MAX\<close>, is undefined in C. There the loop nest
    \<open>box\<close> has no value (\<open>None\<close>), and neither have \<open>fill\<close>, \<open>surface\<close> and \<open>interface\<close>.
  \<^item> C's \<^verbatim>\<open>double\<close> is \<open>real\<close>: rounding is not modelled, and there is no infinity and no
    NaN. A division by \<open>step = 0\<close> gives one of the two in C; the atom loops convert it to
    \<^verbatim>\<open>int\<close>, so they have no value when \<open>step = 0\<close>. \<^verbatim>\<open>ses\<close> converts \<^verbatim>\<open>ceil(probe / step)\<close>
    to \<^verbatim>\<open>int\<close> once (line 160): \<open>ses\<close> takes the integer \<open>\<lceil>probe / step\<rceil>\<close>, which is that
    \<^verbatim>\<open>int\<close> when \<open>step\<close> is not \<open>0\<close> and the integer lies within \<^verbatim>\<open>int\<close> (\<open>aux_defined\<close>).
  \<^item> The OpenMP loops are run in the order of the loop nest (lexicographic in
    \<open>(i, j, k)\<close>), one iteration after the other.
  \<^item> The progress lines on \<^verbatim>\<open>stdout\<close> are left out.
  \<^item> \<^verbatim>\<open>flood_and_fill\<close> is recursive and \<^verbatim>\<open>while (big)\<close> is a loop: both take fuel (the
    depth of the recursion, the number of turns of the loop), and running out of fuel
    is the value \<open>None\<close>. A fuel of 10000 is enough on every input
    (\<open>flood_and_fill_total\<close>, \<open>cluster_total\<close>, \<open>filter_enclosed_regions_total\<close> below).
  \<^item> \<^verbatim>\<open>_surface\<close> and \<^verbatim>\<open>_interface\<close> are \<open>surface\<close> and \<open>interface\<close>; \<^verbatim>\<open>create\<close> and \<^verbatim>\<open>insert\<close>
    are \<open>insert_res\<close>; the parameter \<^verbatim>\<open>size\<close> is \<open>sz\<close>.
\<close>

subsection \<open>Stores, offsets and loop nests\<close>

type_synonym grid = "int \<Rightarrow> int"

definition vox :: "int \<Rightarrow> int \<Rightarrow> int \<Rightarrow> int \<Rightarrow> int \<Rightarrow> int" where
  "vox ny nz i j k = k + nz * (j + (ny * i))"

text \<open>\<^verbatim>\<open>for (i = 0; i < nx; i++) for (j = 0; j < ny; j++) for (k = 0; k < nz; k++)\<close>\<close>

definition voxels :: "int \<Rightarrow> int \<Rightarrow> int \<Rightarrow> (int \<times> int \<times> int) list" where
  "voxels nx ny nz = [(i, j, k). i \<leftarrow> [0..nx - 1], j \<leftarrow> [0..ny - 1], k \<leftarrow> [0..nz - 1]]"

text \<open>\<^verbatim>\<open>for (x = i - 1; x <= i + 1; x++) for (y = j - 1; ...) for (z = k - 1; ...)\<close>\<close>

definition cube :: "int \<Rightarrow> int \<Rightarrow> int \<Rightarrow> (int \<times> int \<times> int) list" where
  "cube i j k = [(x, y, z). x \<leftarrow> [i - 1, i, i + 1], y \<leftarrow> [j - 1, j, j + 1], z \<leftarrow> [k - 1, k, k + 1]]"

text \<open>The test of the four neighbour loops: the point is inside the 3D grid.\<close>

definition inside :: "int \<Rightarrow> int \<Rightarrow> int \<Rightarrow> int \<Rightarrow> int \<Rightarrow> int \<Rightarrow> bool" where
  "inside nx ny nz x y z \<longleftrightarrow> \<not> (x < 0 \<or> y < 0 \<or> z < 0 \<or> x > nx - 1 \<or> y > ny - 1 \<or> z > nz - 1)"

text \<open>Sequencing of steps that may have no value.\<close>

fun foldM :: "('a \<Rightarrow> 's \<Rightarrow> 's option) \<Rightarrow> 'a list \<Rightarrow> 's \<Rightarrow> 's option" where
  "foldM f [] s = Some s"
| "foldM f (x # xs) s = (case f x s of None \<Rightarrow> None | Some s' \<Rightarrow> foldM f xs s')"

subsection \<open>Grid initialization and filling\<close>

definition igrid :: "grid \<Rightarrow> int \<Rightarrow> grid" where
  "igrid g sz = fold (\<lambda>i g. g(i := 1)) [0..sz - 1] g"

text \<open>The atom's center in grid coordinates (the same lines in \<^verbatim>\<open>fill\<close> and \<^verbatim>\<open>_interface\<close>).\<close>

definition grid_coords :: "(int \<Rightarrow> real) \<Rightarrow> (int \<Rightarrow> real) \<Rightarrow> (int \<Rightarrow> real) \<Rightarrow> real \<Rightarrow> int
    \<Rightarrow> real \<times> real \<times> real" where
  "grid_coords atoms reference sincos step atom =
     (let x = (atoms (atom * 4) - reference 0) / step;
          y = (atoms (1 + (atom * 4)) - reference 1) / step;
          z = (atoms (2 + (atom * 4)) - reference 2) / step;
          xaux = x * sincos 3 + z * sincos 2;
          yaux = y;
          zaux = (- x) * sincos 2 + z * sincos 3;
          x = xaux;
          y = yaux * sincos 1 - zaux * sincos 0;
          z = yaux * sincos 0 + zaux * sincos 1
      in (x, y, z))"

text \<open>The least and the greatest \<^verbatim>\<open>int\<close>.\<close>

definition int_min :: int where
  "int_min = - 2147483648"

definition int_max :: int where
  "int_max = 2147483647"

text \<open>
  \<^verbatim>\<open>for (i = floor(lo); i <= ceil(hi); i++)\<close> with \<^verbatim>\<open>int i\<close>: the values that \<open>i\<close> takes in the
  body. The loop has no value when \<^verbatim>\<open>floor(lo)\<close> is not an \<^verbatim>\<open>int\<close> (the conversion is
  undefined), and when the body runs and \<^verbatim>\<open>ceil(hi)\<close> is \<^verbatim>\<open>INT_MAX\<close> or more (the test never
  fails, and \<^verbatim>\<open>i++\<close> at \<^verbatim>\<open>INT_MAX\<close> is undefined).
\<close>

definition for_values :: "real \<Rightarrow> real \<Rightarrow> int list option" where
  "for_values lo hi =
     (if \<lfloor>lo\<rfloor> < int_min \<or> int_max < \<lfloor>lo\<rfloor> then None
      else if \<lceil>hi\<rceil> < \<lfloor>lo\<rfloor> then Some []
      else if int_max \<le> \<lceil>hi\<rceil> then None
      else Some [\<lfloor>lo\<rfloor>..\<lceil>hi\<rceil>])"

text \<open>
  The loop nest of lines 89 to 91 and 706 to 708: the loop of \<open>j\<close> starts once for each
  \<open>i\<close>, and the loop of \<open>k\<close> once for each \<open>j\<close>, so an inner loop without a value matters
  only when the loops around it run their body.
\<close>

definition box :: "real \<Rightarrow> real \<Rightarrow> real \<Rightarrow> real \<Rightarrow> (int \<times> int \<times> int) list option" where
  "box x y z H =
     (case for_values (x - H) (x + H) of
        None \<Rightarrow> None
      | Some xs \<Rightarrow>
          if xs = [] then Some []
          else (case for_values (y - H) (y + H) of
                  None \<Rightarrow> None
                | Some ys \<Rightarrow>
                    if ys = [] then Some []
                    else (case for_values (z - H) (z + H) of
                            None \<Rightarrow> None
                          | Some zs \<Rightarrow> Some [(i, j, k). i \<leftarrow> xs, j \<leftarrow> ys, k \<leftarrow> zs])))"

definition fill_voxel :: "int \<Rightarrow> int \<Rightarrow> int \<Rightarrow> real \<Rightarrow> real \<Rightarrow> real \<Rightarrow> real
    \<Rightarrow> int \<times> int \<times> int \<Rightarrow> grid \<Rightarrow> grid" where
  "fill_voxel nx ny nz x y z H = (\<lambda>(i, j, k) g.
     (let distance = sqrt ((of_int i - x)\<^sup>2 + (of_int j - y)\<^sup>2 + (of_int k - z)\<^sup>2)
      in if distance < H
         then if i \<ge> 0 \<and> i < nx \<and> j \<ge> 0 \<and> j < ny \<and> k \<ge> 0 \<and> k < nz
              then g(vox ny nz i j k := 0) else g
         else g))"

text \<open>
  The body of the loop over the atoms (lines 72 to 98). With \<open>step = 0\<close> the bounds of the
  loops are infinite or NaN, and their conversion to \<^verbatim>\<open>int\<close> is undefined.
\<close>

definition fill_atom :: "int \<Rightarrow> int \<Rightarrow> int \<Rightarrow> (int \<Rightarrow> real) \<Rightarrow> (int \<Rightarrow> real) \<Rightarrow> (int \<Rightarrow> real)
    \<Rightarrow> real \<Rightarrow> real \<Rightarrow> int \<Rightarrow> grid \<Rightarrow> grid option" where
  "fill_atom nx ny nz atoms reference sincos step probe atom g =
     (if step = 0 then None
      else (case grid_coords atoms reference sincos step atom of (x, y, z) \<Rightarrow>
        (let H = (probe + atoms (3 + (atom * 4))) / step
         in case box x y z H of
              None \<Rightarrow> None
            | Some vs \<Rightarrow> Some (fold (fill_voxel nx ny nz x y z H) vs g))))"

definition fill :: "grid \<Rightarrow> int \<Rightarrow> int \<Rightarrow> int \<Rightarrow> (int \<Rightarrow> real) \<Rightarrow> int \<Rightarrow> (int \<Rightarrow> real)
    \<Rightarrow> (int \<Rightarrow> real) \<Rightarrow> real \<Rightarrow> real \<Rightarrow> grid option" where
  "fill g nx ny nz atoms natoms reference sincos step probe =
     foldM (fill_atom nx ny nz atoms reference sincos step probe) [0..natoms - 1] g"

subsection \<open>Biomolecular surface representation\<close>

definition check_protein_neighbours :: "grid \<Rightarrow> int \<Rightarrow> int \<Rightarrow> int \<Rightarrow> int \<Rightarrow> int \<Rightarrow> int \<Rightarrow> int" where
  "check_protein_neighbours g nx ny nz i j k =
     (case find (\<lambda>(x, y, z). inside nx ny nz x y z \<and>
                   (g (vox ny nz x y z) = 0 \<or> g (vox ny nz x y z) = - 2)) (cube i j k) of
        Some _ \<Rightarrow> 1
      | None \<Rightarrow> 0)"

text \<open>The loop nest \<^verbatim>\<open>i2, j2, k2\<close> of \<^verbatim>\<open>ses\<close>, \<open>aux\<close> voxels around \<open>(i, j, k)\<close>.\<close>

definition around :: "int \<Rightarrow> int \<Rightarrow> int \<Rightarrow> int \<Rightarrow> (int \<times> int \<times> int) list" where
  "around aux i j k = [(i2, j2, k2). i2 \<leftarrow> [i - aux..i + aux], j2 \<leftarrow> [j - aux..j + aux],
                                      k2 \<leftarrow> [k - aux..k + aux]]"

definition ses_mark_voxel :: "int \<Rightarrow> int \<Rightarrow> int \<Rightarrow> real \<Rightarrow> real \<Rightarrow> int \<Rightarrow> int \<Rightarrow> int
    \<Rightarrow> int \<times> int \<times> int \<Rightarrow> grid \<Rightarrow> grid" where
  "ses_mark_voxel nx ny nz step probe i j k = (\<lambda>(i2, j2, k2) g.
     if i2 > 0 \<and> j2 > 0 \<and> k2 > 0 \<and> i2 < nx \<and> j2 < ny \<and> k2 < nz
     then (let distance = sqrt ((of_int (i - i2))\<^sup>2 + (of_int (j - j2))\<^sup>2 + (of_int (k - k2))\<^sup>2)
           in if distance < probe / step
              then if g (vox ny nz i2 j2 k2) = 0 then g(vox ny nz i2 j2 k2 := - 2) else g
              else g)
     else g)"

text \<open>The first loop nest of \<^verbatim>\<open>ses\<close> (lines 170 to 195), for one \<open>(i, j, k)\<close>.\<close>

definition ses_mark :: "int \<Rightarrow> int \<Rightarrow> int \<Rightarrow> real \<Rightarrow> real \<Rightarrow> int
    \<Rightarrow> int \<times> int \<times> int \<Rightarrow> grid \<Rightarrow> grid" where
  "ses_mark nx ny nz step probe aux = (\<lambda>(i, j, k) g.
     if g (vox ny nz i j k) = 1
     then if check_protein_neighbours g nx ny nz i j k \<noteq> 0
          then fold (ses_mark_voxel nx ny nz step probe i j k) (around aux i j k) g
          else g
     else g)"

text \<open>The second loop nest of \<^verbatim>\<open>ses\<close> (lines 199 to 206), for one \<open>(i, j, k)\<close>.\<close>

definition ses_promote :: "int \<Rightarrow> int \<Rightarrow> int \<times> int \<times> int \<Rightarrow> grid \<Rightarrow> grid" where
  "ses_promote ny nz = (\<lambda>(i, j, k) g.
     if g (vox ny nz i j k) = - 2 then g(vox ny nz i j k := 1) else g)"

definition ses_pass_a :: "grid \<Rightarrow> int \<Rightarrow> int \<Rightarrow> int \<Rightarrow> real \<Rightarrow> real \<Rightarrow> grid" where
  "ses_pass_a g nx ny nz step probe =
     (let aux = \<lceil>probe / step\<rceil>
      in fold (ses_mark nx ny nz step probe aux) (voxels nx ny nz) g)"

definition ses :: "grid \<Rightarrow> int \<Rightarrow> int \<Rightarrow> int \<Rightarrow> real \<Rightarrow> real \<Rightarrow> grid" where
  "ses g nx ny nz step probe =
     fold (ses_promote ny nz) (voxels nx ny nz) (ses_pass_a g nx ny nz step probe)"

subsection \<open>Surface points detection\<close>

definition define_surface_points :: "grid \<Rightarrow> int \<Rightarrow> int \<Rightarrow> int \<Rightarrow> int \<Rightarrow> int \<Rightarrow> int \<Rightarrow> int" where
  "define_surface_points g nx ny nz i j k =
     (case find (\<lambda>(x, y, z). inside nx ny nz x y z \<and> g (vox ny nz x y z) = 0) (cube i j k) of
        Some _ \<Rightarrow> 1
      | None \<Rightarrow> - 1)"

definition filter_surface :: "grid \<Rightarrow> int \<Rightarrow> int \<Rightarrow> int \<Rightarrow> grid" where
  "filter_surface g nx ny nz =
     fold (\<lambda>(i, j, k) g.
             if g (vox ny nz i j k) = 1
             then g(vox ny nz i j k := define_surface_points g nx ny nz i j k) else g)
          (voxels nx ny nz) g"

subsection \<open>Enclosed points removal\<close>

definition remove_noise_points :: "grid \<Rightarrow> int \<Rightarrow> int \<Rightarrow> int \<Rightarrow> int \<Rightarrow> int \<Rightarrow> int \<Rightarrow> int" where
  "remove_noise_points g nx ny nz i j k =
     (case find (\<lambda>(x, y, z). inside nx ny nz x y z \<and> g (vox ny nz x y z) = - 1) (cube i j k) of
        Some _ \<Rightarrow> 1
      | None \<Rightarrow> 0)"

definition filter_noise_points :: "grid \<Rightarrow> int \<Rightarrow> int \<Rightarrow> int \<Rightarrow> grid" where
  "filter_noise_points g nx ny nz =
     fold (\<lambda>(i, j, k) g.
             if g (vox ny nz i j k) = 1
             then g(vox ny nz i j k := remove_noise_points g nx ny nz i j k) else g)
          (voxels nx ny nz) g"

subsection \<open>Enclosed points removal: flood and fill\<close>

text \<open>The grid and the two globals \<^verbatim>\<open>points\<close> and \<^verbatim>\<open>big\<close> that the clustering works on.\<close>

record globals =
  grid :: grid
  points :: int
  big :: int

definition check_unclustered_neighbours :: "grid \<Rightarrow> int \<Rightarrow> int \<Rightarrow> int \<Rightarrow> int \<Rightarrow> int \<Rightarrow> int \<Rightarrow> int" where
  "check_unclustered_neighbours g nx ny nz i j k =
     (case find (\<lambda>(x, y, z). inside nx ny nz x y z \<and> g (vox ny nz x y z) > 1) (cube i j k) of
        Some (x, y, z) \<Rightarrow> g (vox ny nz x y z)
      | None \<Rightarrow> 0)"

fun flood_and_fill :: "nat \<Rightarrow> int \<Rightarrow> int \<Rightarrow> int \<Rightarrow> int \<Rightarrow> int \<times> int \<times> int \<Rightarrow> globals
    \<Rightarrow> globals option" where
  "flood_and_fill 0 nx ny nz tag (i, j, k) s = None"
| "flood_and_fill (Suc fuel) nx ny nz tag (i, j, k) s =
     (if i = 0 \<or> i = nx - 1 \<or> j = 0 \<or> j = ny - 1 \<or> k = 0 \<or> k = nz - 1 then Some s
      else if grid s (vox ny nz i j k) = 1 \<and> big s = 0
      then (let s = s\<lparr>grid := (grid s)(vox ny nz i j k := tag), points := points s + 1\<rparr>;
                s = (if points s = 10000 then s\<lparr>big := 1\<rparr> else s)
            in if big s = 0
               then foldM (flood_and_fill fuel nx ny nz tag) (cube i j k) s
               else Some s)
      else Some s)"

text \<open>
  The locals \<^verbatim>\<open>tag\<close> and \<^verbatim>\<open>aux\<close> of \<^verbatim>\<open>filter_enclosed_regions\<close>, with the globals.
\<close>

record pruner =
  glob :: globals
  tag :: int
  aux :: int

text \<open>The body of the loop nest \<^verbatim>\<open>i2, j2, k2\<close> (lines 493 to 499).\<close>

definition rescan_voxel :: "nat \<Rightarrow> int \<Rightarrow> int \<Rightarrow> int \<Rightarrow> int \<times> int \<times> int \<Rightarrow> pruner
    \<Rightarrow> pruner option" where
  "rescan_voxel fuel nx ny nz = (\<lambda>(i2, j2, k2) p.
     (let s = (glob p)\<lparr>big := 0\<rparr>;
          a = aux p + points s;
          s = s\<lparr>points := 0\<rparr>
      in if grid s (vox ny nz i2 j2 k2) = 1 \<and>
            check_unclustered_neighbours (grid s) nx ny nz i2 j2 k2 = tag p
         then (case flood_and_fill fuel nx ny nz (tag p) (i2, j2, k2) s of
                 None \<Rightarrow> None
               | Some s' \<Rightarrow> Some (p\<lparr>glob := s', aux := a\<rparr>))
         else Some (p\<lparr>glob := s, aux := a\<rparr>)))"

text \<open>\<^verbatim>\<open>while (big) { aux = 0; for ... }\<close> (lines 486 to 500).\<close>

fun big_loop :: "nat \<Rightarrow> nat \<Rightarrow> int \<Rightarrow> int \<Rightarrow> int \<Rightarrow> pruner \<Rightarrow> pruner option" where
  "big_loop 0 fuel nx ny nz p = None"
| "big_loop (Suc n) fuel nx ny nz p =
     (if big (glob p) \<noteq> 0
      then (case foldM (rescan_voxel fuel nx ny nz) (voxels nx ny nz) (p\<lparr>aux := 0\<rparr>) of
              None \<Rightarrow> None
            | Some p' \<Rightarrow> big_loop n fuel nx ny nz p')
      else Some p)"

text \<open>The body of the clustering loop nest (lines 476 to 502).\<close>

definition cluster_voxel :: "nat \<Rightarrow> int \<Rightarrow> int \<Rightarrow> int \<Rightarrow> int \<times> int \<times> int \<Rightarrow> pruner
    \<Rightarrow> pruner option" where
  "cluster_voxel fuel nx ny nz = (\<lambda>(i, j, k) p.
     if grid (glob p) (vox ny nz i j k) = 1
     then (let p = p\<lparr>tag := tag p + 1\<rparr>;
               p = p\<lparr>glob := (glob p)\<lparr>points := 0\<rparr>\<rparr>
           in case flood_and_fill fuel nx ny nz (tag p) (i, j, k) (glob p) of
                None \<Rightarrow> None
              | Some s \<Rightarrow>
                 (case big_loop fuel fuel nx ny nz (p\<lparr>glob := s, aux := points s\<rparr>) of
                    None \<Rightarrow> None
                  | Some p \<Rightarrow> Some (p\<lparr>glob := (glob p)\<lparr>points := aux p\<rparr>\<rparr>)))
     else Some p)"

text \<open>
  The clustering (lines 468 to 502): \<^verbatim>\<open>points\<close> is whatever the global held before the
  call.
\<close>

definition cluster :: "nat \<Rightarrow> grid \<Rightarrow> int \<Rightarrow> int \<Rightarrow> int \<Rightarrow> int \<Rightarrow> pruner option" where
  "cluster fuel g points0 nx ny nz =
     foldM (cluster_voxel fuel nx ny nz) (voxels nx ny nz)
       \<lparr>glob = \<lparr>grid = g, points = points0, big = 0\<rparr>, tag = 1, aux = 0\<rparr>"

text \<open>The tag conversion (lines 512 to 520), for one \<open>(i, j, k)\<close>.\<close>

definition convert_tag :: "int \<Rightarrow> int \<Rightarrow> int \<times> int \<times> int \<Rightarrow> grid \<Rightarrow> grid" where
  "convert_tag ny nz = (\<lambda>(i, j, k) g.
     if g (vox ny nz i j k) = 2 then g(vox ny nz i j k := 1)
     else if g (vox ny nz i j k) > 2 then g(vox ny nz i j k := 0)
     else g)"

definition filter_enclosed_regions :: "nat \<Rightarrow> grid \<Rightarrow> int \<Rightarrow> int \<Rightarrow> int \<Rightarrow> int \<Rightarrow> grid option" where
  "filter_enclosed_regions fuel g points0 nx ny nz =
     (case cluster fuel g points0 nx ny nz of
        None \<Rightarrow> None
      | Some p \<Rightarrow>
          Some (if tag p > 1 then fold (convert_tag ny nz) (voxels nx ny nz) (grid (glob p))
                else grid (glob p)))"

subsection \<open>The surface operation\<close>

definition surface :: "nat \<Rightarrow> grid \<Rightarrow> int \<Rightarrow> int \<Rightarrow> int \<Rightarrow> int \<Rightarrow> int \<Rightarrow> (int \<Rightarrow> real) \<Rightarrow> int
    \<Rightarrow> (int \<Rightarrow> real) \<Rightarrow> (int \<Rightarrow> real) \<Rightarrow> real \<Rightarrow> real \<Rightarrow> int \<Rightarrow> grid option" where
  "surface fuel g points0 sz nx ny nz atoms natoms reference sincos step probe is_ses =
     (let g = igrid g sz
      in case fill g nx ny nz atoms natoms reference sincos step probe of
           None \<Rightarrow> None
         | Some g \<Rightarrow>
            (let g = (if is_ses \<noteq> 0 then ses g nx ny nz step probe else g);
                 g = filter_surface g nx ny nz
             in case filter_enclosed_regions fuel g points0 nx ny nz of
                  None \<Rightarrow> None
                | Some g \<Rightarrow> Some (filter_noise_points g nx ny nz)))"

subsection \<open>Solvent-exposed residues detection\<close>

text \<open>
  The linked list of \<^verbatim>\<open>res\<close> nodes is the list of their \<^verbatim>\<open>pos\<close> fields, the head first.
  \<^verbatim>\<open>create\<close> and \<^verbatim>\<open>insert\<close> together put a fresh node for \<open>pos\<close> into the list:
  \<open>advance\<close> is the \<^verbatim>\<open>while\<close> loop of \<^verbatim>\<open>insert\<close> over the nodes after \<^verbatim>\<open>current\<close>.
\<close>

fun advance :: "int list \<Rightarrow> int \<Rightarrow> int list" where
  "advance [] pos = [pos]"
| "advance (n # rest) pos = (if n < pos then n # advance rest pos else pos # n # rest)"

definition insert_res :: "int list \<Rightarrow> int \<Rightarrow> int list" where
  "insert_res head pos =
     (case head of
        [] \<Rightarrow> [pos]
      | h # rest \<Rightarrow> if h \<ge> pos then pos # head else h # advance rest pos)"

record reslist_state =
  reslist :: "int list"
  count :: int
  old_atom :: int

definition interface_voxel :: "grid \<Rightarrow> int \<Rightarrow> int \<Rightarrow> int \<Rightarrow> real \<Rightarrow> real \<Rightarrow> real \<Rightarrow> real \<Rightarrow> int
    \<Rightarrow> int \<times> int \<times> int \<Rightarrow> reslist_state \<Rightarrow> reslist_state" where
  "interface_voxel g nx ny nz x y z H atom = (\<lambda>(i, j, k) r.
     if i < nx \<and> i > 0 \<and> j < ny \<and> j > 0 \<and> k < nz \<and> k > 0
     then if g (vox ny nz i j k) = 1
          then (let distance = sqrt ((of_int i - x)\<^sup>2 + (of_int j - y)\<^sup>2 + (of_int k - z)\<^sup>2)
                in if distance \<le> H
                   then (let r = (if old_atom r \<noteq> atom
                                  then r\<lparr>reslist := insert_res (reslist r) atom,
                                         count := count r + 1\<rparr>
                                  else r)
                         in r\<lparr>old_atom := atom\<rparr>)
                   else r)
          else r
     else r)"

text \<open>The body of the loop over the atoms (lines 689 to 725), as in \<^verbatim>\<open>fill\<close>.\<close>

definition interface_atom :: "grid \<Rightarrow> int \<Rightarrow> int \<Rightarrow> int \<Rightarrow> (int \<Rightarrow> real) \<Rightarrow> (int \<Rightarrow> real)
    \<Rightarrow> (int \<Rightarrow> real) \<Rightarrow> real \<Rightarrow> real \<Rightarrow> int \<Rightarrow> reslist_state \<Rightarrow> reslist_state option" where
  "interface_atom g nx ny nz atoms reference sincos step probe atom r =
     (if step = 0 then None
      else (case grid_coords atoms reference sincos step atom of (x, y, z) \<Rightarrow>
        (let H = (probe + atoms (3 + (atom * 4))) / step
         in case box x y z H of
              None \<Rightarrow> None
            | Some vs \<Rightarrow> Some (fold (interface_voxel g nx ny nz x y z H atom) vs r))))"

text \<open>The loop over the atoms (lines 687 to 726).\<close>

definition interface_scan :: "grid \<Rightarrow> int \<Rightarrow> int \<Rightarrow> int \<Rightarrow> (int \<Rightarrow> real) \<Rightarrow> int \<Rightarrow> (int \<Rightarrow> real)
    \<Rightarrow> (int \<Rightarrow> real) \<Rightarrow> real \<Rightarrow> real \<Rightarrow> reslist_state option" where
  "interface_scan g nx ny nz atoms natoms reference sincos step probe =
     foldM (interface_atom g nx ny nz atoms reference sincos step probe) [0..natoms - 1]
       \<lparr>reslist = [], count = 0, old_atom = - 1\<rparr>"

text \<open>
  A \<^verbatim>\<open>char *\<close> is a \<open>string option\<close>, \<open>None\<close> for \<^verbatim>\<open>NULL\<close>. The array that \<^verbatim>\<open>calloc\<close> returns
  is a list of \<open>count + 1\<close> null pointers; \<open>copy_residues\<close> is the \<^verbatim>\<open>while\<close> loop over the
  linked list (lines 732 to 736) and returns the array with the last \<open>j\<close>.
\<close>

fun copy_residues :: "(int \<Rightarrow> string option) \<Rightarrow> int list \<Rightarrow> string option list \<Rightarrow> nat
    \<Rightarrow> string option list \<times> nat" where
  "copy_residues pdb [] residues j = (residues, j)"
| "copy_residues pdb (pos # rest) residues j = copy_residues pdb rest (residues[j := pdb pos]) (j + 1)"

definition interface :: "grid \<Rightarrow> int \<Rightarrow> int \<Rightarrow> int \<Rightarrow> (int \<Rightarrow> string option) \<Rightarrow> (int \<Rightarrow> real) \<Rightarrow> int
    \<Rightarrow> (int \<Rightarrow> real) \<Rightarrow> (int \<Rightarrow> real) \<Rightarrow> real \<Rightarrow> real \<Rightarrow> string option list option" where
  "interface g nx ny nz pdb atoms natoms reference sincos step probe =
     (case interface_scan g nx ny nz atoms natoms reference sincos step probe of
        None \<Rightarrow> None
      | Some r \<Rightarrow>
         (let residues = replicate (nat (count r + 1)) None
          in case copy_residues pdb (reslist r) residues 0 of
               (residues, j) \<Rightarrow> Some (residues[j := None])))"


subsection \<open>What \<^verbatim>\<open>_interface\<close> tests, and what the specification asks for\<close>

text \<open>The three nested tests of \<^verbatim>\<open>_interface\<close> (lines 710 to 714) on one voxel of the box.\<close>

definition voxel_hit :: "grid \<Rightarrow> int \<Rightarrow> int \<Rightarrow> int \<Rightarrow> real \<Rightarrow> real \<Rightarrow> real \<Rightarrow> real
    \<Rightarrow> int \<times> int \<times> int \<Rightarrow> bool" where
  "voxel_hit g nx ny nz x y z H = (\<lambda>(i, j, k).
     (i < nx \<and> i > 0 \<and> j < ny \<and> j > 0 \<and> k < nz \<and> k > 0) \<and> g (vox ny nz i j k) = 1 \<and>
     sqrt ((of_int i - x)\<^sup>2 + (of_int j - y)\<^sup>2 + (of_int k - z)\<^sup>2) \<le> H)"

text \<open>Some voxel of the atom's box passes the tests of \<^verbatim>\<open>_interface\<close>.\<close>

definition atom_touches :: "grid \<Rightarrow> int \<Rightarrow> int \<Rightarrow> int \<Rightarrow> (int \<Rightarrow> real) \<Rightarrow> (int \<Rightarrow> real)
    \<Rightarrow> (int \<Rightarrow> real) \<Rightarrow> real \<Rightarrow> real \<Rightarrow> int \<Rightarrow> bool" where
  "atom_touches g nx ny nz atoms reference sincos step probe atom =
     (case grid_coords atoms reference sincos step atom of (x, y, z) \<Rightarrow>
        (let H = (probe + atoms (3 + (atom * 4))) / step
         in case box x y z H of
              None \<Rightarrow> False
            | Some vs \<Rightarrow> list_ex (voxel_hit g nx ny nz x y z H) vs))"

text \<open>
  The loops around one atom have a value, and so have the loops around each of the atoms
  \<open>0, ..., natoms - 1\<close>.
\<close>

definition atom_defined :: "(int \<Rightarrow> real) \<Rightarrow> (int \<Rightarrow> real) \<Rightarrow> (int \<Rightarrow> real) \<Rightarrow> real \<Rightarrow> real
    \<Rightarrow> int \<Rightarrow> bool" where
  "atom_defined atoms reference sincos step probe atom =
     (step \<noteq> 0 \<and>
      (case grid_coords atoms reference sincos step atom of (x, y, z) \<Rightarrow>
         box x y z ((probe + atoms (3 + (atom * 4))) / step) \<noteq> None))"

definition atoms_defined :: "(int \<Rightarrow> real) \<Rightarrow> int \<Rightarrow> (int \<Rightarrow> real) \<Rightarrow> (int \<Rightarrow> real) \<Rightarrow> real \<Rightarrow> real
    \<Rightarrow> bool" where
  "atoms_defined atoms natoms reference sincos step probe =
     list_all (atom_defined atoms reference sincos step probe) [0..natoms - 1]"

text \<open>The conversion \<^verbatim>\<open>aux = ceil(probe / step)\<close> of \<^verbatim>\<open>ses\<close> (line 160) is defined.\<close>

definition aux_defined :: "real \<Rightarrow> real \<Rightarrow> bool" where
  "aux_defined step probe = (step \<noteq> 0 \<and> int_min \<le> \<lceil>probe / step\<rceil> \<and> \<lceil>probe / step\<rceil> \<le> int_max)"

text \<open>
  The specification's words (section 4.8): some voxel whose indices lie within
  \<open>[0, nx) \<times> [0, ny) \<times> [0, nz)\<close> has tag \<open>1\<close> and lies at Euclidean distance at most
  \<open>H = (radius + probe) / step\<close> from the atom's transformed center.
\<close>

definition touches_within_grid :: "grid \<Rightarrow> int \<Rightarrow> int \<Rightarrow> int \<Rightarrow> (int \<Rightarrow> real) \<Rightarrow> (int \<Rightarrow> real)
    \<Rightarrow> (int \<Rightarrow> real) \<Rightarrow> real \<Rightarrow> real \<Rightarrow> int \<Rightarrow> bool" where
  "touches_within_grid g nx ny nz atoms reference sincos step probe atom =
     (case grid_coords atoms reference sincos step atom of (x, y, z) \<Rightarrow>
        (let H = (atoms (3 + (atom * 4)) + probe) / step
         in list_ex (\<lambda>(i, j, k). g (vox ny nz i j k) = 1 \<and>
                      sqrt ((of_int i - x)\<^sup>2 + (of_int j - y)\<^sup>2 + (of_int k - z)\<^sup>2) \<le> H)
              (voxels nx ny nz)))"

subsection \<open>Predicates on the clustering state\<close>

text \<open>The test of line 425: the voxel lies on an outer face of the grid.\<close>

definition on_face :: "int \<Rightarrow> int \<Rightarrow> int \<Rightarrow> int \<times> int \<times> int \<Rightarrow> bool" where
  "on_face nx ny nz = (\<lambda>(i, j, k). i = 0 \<or> i = nx - 1 \<or> j = 0 \<or> j = ny - 1 \<or> k = 0 \<or> k = nz - 1)"

text \<open>
  The marker stops for good once \<^verbatim>\<open>points\<close> has reached 10000: either \<^verbatim>\<open>big\<close> is set, or
  \<^verbatim>\<open>points\<close> is still below 10000.
\<close>

definition budget_ok :: "globals \<Rightarrow> bool" where
  "budget_ok s \<longleftrightarrow> big s \<noteq> 0 \<or> points s < 10000"


text \<open>What the conversion of lines 516 to 519 does to one tag.\<close>

definition converted :: "int \<Rightarrow> int" where
  "converted c = (if c = 2 then 1 else if c > 2 then 0 else c)"

text \<open>What the second loop nest of \<^verbatim>\<open>ses\<close> does to one tag.\<close>

definition promoted :: "int \<Rightarrow> int" where
  "promoted c = (if c = - 2 then 1 else c)"

text \<open>The first pass of \<^verbatim>\<open>ses\<close> only ever turns a \<open>0\<close> into \<open>-2\<close>.\<close>

definition marked_from :: "grid \<Rightarrow> grid \<Rightarrow> bool" where
  "marked_from g g' \<longleftrightarrow> (\<forall>a. g' a = g a \<or> (g a = 0 \<and> g' a = - 2))"

text \<open>The marker only ever turns a \<open>1\<close> into the tag \<open>t\<close> of the cluster.\<close>

definition tagged_from :: "int \<Rightarrow> grid \<Rightarrow> grid \<Rightarrow> bool" where
  "tagged_from t g g' \<longleftrightarrow> (\<forall>a. g' a = g a \<or> (g a = 1 \<and> g' a = t))"

text \<open>The grid with every cell from offset \<open>lo\<close> to offset \<open>hi\<close> set to \<open>t\<close>.\<close>

definition paint :: "grid \<Rightarrow> int \<Rightarrow> int \<Rightarrow> int \<Rightarrow> grid" where
  "paint g t lo hi = (\<lambda>a. if lo \<le> a \<and> a \<le> hi then t else g a)"

text \<open>Where a voxel stands in the scan: the voxels before it and the voxels after it.\<close>

definition scanned_before :: "int \<times> int \<times> int \<Rightarrow> int \<times> int \<times> int \<Rightarrow> bool" where
  "scanned_before = (\<lambda>(i, j, k) (a, b, c). i < a \<or> (i = a \<and> (j < b \<or> (j = b \<and> k < c))))"

subsection \<open>Inputs of the examples\<close>

text \<open>The identity orientation \<open>(sin a, cos a, sin b, cos b) = (0, 1, 0, 1)\<close>.\<close>

definition sincos_id :: "int \<Rightarrow> real" where
  "sincos_id n = (if n = 1 \<or> n = 3 then 1 else 0)"

text \<open>One atom of radius \<open>1/2\<close> centered at \<open>(0, 1, 1)\<close>.\<close>

definition atom_011 :: "int \<Rightarrow> real" where
  "atom_011 a = (if a = 0 then 0 else if a = 3 then 1 / 2 else 1)"

text \<open>One atom of radius \<open>1/2\<close> centered at \<open>(3000000000, 1, 1)\<close>, beyond the range of \<^verbatim>\<open>int\<close>.\<close>

definition atom_far :: "int \<Rightarrow> real" where
  "atom_far a = (if a = 0 then 3000000000 else if a = 3 then 1 / 2 else 1)"

text \<open>
  Three atoms of radius \<open>1/2\<close>: the first and the third centered at \<open>(1, 1, 1)\<close>, the
  second at \<open>(9, 9, 9)\<close>.
\<close>

definition atoms_3 :: "int \<Rightarrow> real" where
  "atoms_3 a = (if a = 3 \<or> a = 7 \<or> a = 11 then 1 / 2 else if 4 \<le> a \<and> a < 7 then 9 else 1)"

definition pdb_3 :: "int \<Rightarrow> string option" where
  "pdb_3 a = (if a = 0 then Some ''10_A'' else if a = 1 then Some ''11_A'' else Some ''12_A'')"

text \<open>A store of zeros as a grid of bulk, and as the reference at the world's origin.\<close>

definition grid_zeros :: grid where
  "grid_zeros = (\<lambda>_. 0)"

definition origin :: "int \<Rightarrow> real" where
  "origin = (\<lambda>_. 0)"

text \<open>
  A \<open>3 \<times> 3 \<times> 3\<close> grid of bulk whose only surface voxel is the center \<open>(1, 1, 1)\<close>.
\<close>

definition center_surface :: grid where
  "center_surface = grid_zeros(vox 3 3 1 1 1 := 1)"

text \<open>
  A \<open>3 \<times> 3 \<times> 5\<close> grid of bulk with two candidate voxels, \<open>(1, 1, 1)\<close> and \<open>(1, 1, 3)\<close>, that
  do not touch.
\<close>

definition two_pockets :: grid where
  "two_pockets = (\<lambda>_. 0)(vox 3 5 1 1 1 := 1, vox 3 5 1 1 3 := 1)"

text \<open>
  A \<open>3 \<times> 3 \<times> 3\<close> grid of bulk with two candidate voxels: the corner \<open>(0, 0, 0)\<close>, on three
  outer faces, and the center \<open>(1, 1, 1)\<close>.
\<close>

definition corner_and_center :: grid where
  "corner_and_center = (\<lambda>_. 0)(vox 3 3 0 0 0 := 1, vox 3 3 1 1 1 := 1)"

text \<open>
  A \<open>2 \<times> 2 \<times> 2\<close> grid of bulk whose only solvent voxel is \<open>(1, 1, 1)\<close>.
\<close>

definition lone_solvent :: grid where
  "lone_solvent = (\<lambda>_. 0)(vox 2 2 1 1 1 := 1)"

text \<open>
  A \<open>2 \<times> 2 \<times> 3\<close> grid of bulk whose only solvent voxel is \<open>(1, 1, 0)\<close>, at the end of
  the column \<open>(1, 1, 0), (1, 1, 1), (1, 1, 2)\<close>.
\<close>

definition bulk_column :: grid where
  "bulk_column = (\<lambda>_. 0)(vox 2 3 1 1 0 := 1)"

text \<open>
  A \<open>3 \<times> 4 \<times> 20003\<close> grid of bulk with one connected set of candidate voxels: the voxel
  \<open>(1, 1, 20001)\<close> and, next to it, the line \<open>(1, 2, 1), ..., (1, 2, 20000)\<close>. The scan
  meets \<open>(1, 1, 20001)\<close> first.
\<close>

definition snake :: grid where
  "snake a = (if a = vox 4 20003 1 1 20001 \<or> (vox 4 20003 1 2 1 \<le> a \<and> a \<le> vox 4 20003 1 2 20000)
              then 1 else 0)"

text \<open>
  The same grid after the first run of the marker, and after the cluster has been
  processed.
\<close>

definition snake_first :: grid where
  "snake_first a = (if a = vox 4 20003 1 1 20001 \<or> (vox 4 20003 1 2 10002 \<le> a \<and> a \<le> vox 4 20003 1 2 20000)
                    then 2
                    else if vox 4 20003 1 2 1 \<le> a \<and> a \<le> vox 4 20003 1 2 10001 then 1 else 0)"

definition snake_clustered :: grid where
  "snake_clustered a = (if a = vox 4 20003 1 1 20001 \<or> (vox 4 20003 1 2 2 \<le> a \<and> a \<le> vox 4 20003 1 2 20000)
                        then 2
                        else if a = vox 4 20003 1 2 1 then 1 else 0)"

text \<open>What \<^verbatim>\<open>filter_enclosed_regions\<close> returns on that grid.\<close>

definition snake_pruned :: grid where
  "snake_pruned a = (if a = vox 4 20003 1 1 20001 \<or> (vox 4 20003 1 2 2 \<le> a \<and> a \<le> vox 4 20003 1 2 20000)
                     then 1 else 0)"

section \<open>Properties\<close>

subsection \<open>Loop nests\<close>

lemma upto_unfold: "[i..j] = (if i \<le> j then i # [i + 1..j] else [])"
  by (rule upto.simps)

lemma sorted_wrt_upto: "sorted_wrt (<) [i..j]"
  by (simp add: sorted_wrt_iff_nth_less)

lemma set_nest3:
  "set (concat (map (\<lambda>i. concat (map (\<lambda>j. map (\<lambda>k. (i, j, k)) C) B)) A)) =
     {(i, j, k). i \<in> set A \<and> j \<in> set B \<and> k \<in> set C}"
  by auto

lemma nest3_last:
  "concat (map (\<lambda>i. concat (map (\<lambda>j. map (\<lambda>k. (i, j, k)) (C @ [c])) (B @ [b]))) (A @ [a])) =
   (concat (map (\<lambda>i. concat (map (\<lambda>j. map (\<lambda>k. (i, j, k)) (C @ [c])) (B @ [b]))) A) @
    concat (map (\<lambda>j. map (\<lambda>k. (a, j, k)) (C @ [c])) B) @ map (\<lambda>k. (a, b, k)) C) @ [(a, b, c)]"
  by simp

lemma upto_snoc: "0 < n \<Longrightarrow> [0..n - 1] = [0..n - 2] @ [n - 1]"
  using upto_rec2[of 0 "n - 1"] by simp

lemma set_voxels:
  "set (voxels nx ny nz) = {(i, j, k). 0 \<le> i \<and> i < nx \<and> 0 \<le> j \<and> j < ny \<and> 0 \<le> k \<and> k < nz}"
  unfolding voxels_def set_nest3 by auto

lemma voxels_empty: "nx \<le> 0 \<or> ny \<le> 0 \<or> nz \<le> 0 \<Longrightarrow> voxels nx ny nz = []"
  by (auto simp: voxels_def)

lemma voxels_last:
  assumes "0 < nx" "0 < ny" "0 < nz"
  shows "\<exists>vs. voxels nx ny nz = vs @ [(nx - 1, ny - 1, nz - 1)]"
  unfolding voxels_def upto_snoc[OF assms(1)] upto_snoc[OF assms(2)] upto_snoc[OF assms(3)] nest3_last
  by blast

lemma vox_range:
  assumes "0 \<le> i" "i < nx" "0 \<le> j" "j < ny" "0 \<le> k" "k < nz"
  shows "0 \<le> vox ny nz i j k \<and> vox ny nz i j k < nx * ny * nz"
proof -
  have a: "0 \<le> j + ny * i" using assms by simp
  have "j + ny * i \<le> (ny - 1) + ny * (nx - 1)"
    using assms by (intro add_mono mult_left_mono) auto
  then have b: "j + ny * i \<le> nx * ny - 1" by (simp add: algebra_simps)
  have "nz * (j + ny * i) \<le> nz * (nx * ny - 1)"
    using b assms by (intro mult_left_mono) auto
  then have "k + nz * (j + ny * i) < nz + nz * (nx * ny - 1)" using assms by linarith
  moreover have "0 \<le> nz * (j + ny * i)" using a assms by simp
  ultimately show ?thesis using assms by (simp add: vox_def algebra_simps)
qed

lemma igrid_apply: "igrid g sz a = (if 0 \<le> a \<and> a < sz then 1 else g a)"
proof -
  have "fold (\<lambda>i g. g(i := 1)) xs g a = (if a \<in> set xs then 1 else g a)" for xs :: "int list" and g :: grid
    by (induction xs arbitrary: g) auto
  then show ?thesis by (auto simp: igrid_def)
qed


lemma inside_voxels: "inside nx ny nz x y z \<longleftrightarrow> (x, y, z) \<in> set (voxels nx ny nz)"
  by (auto simp: inside_def set_voxels)

lemma fold_id: "(\<And>x. x \<in> set xs \<Longrightarrow> f x g = g) \<Longrightarrow> fold f xs g = g"
  by (induction xs) simp_all

lemma foldM_id: "(\<And>x. x \<in> set xs \<Longrightarrow> f x s = Some s) \<Longrightarrow> foldM f xs s = Some s"
  by (induction xs) simp_all

lemma foldM_None: "\<exists>x \<in> set xs. \<forall>s. f x s = None \<Longrightarrow> foldM f xs s = None"
  by (induction xs arbitrary: s) (auto split: option.split)

lemma foldM_append:
  "foldM f (xs @ ys) s = (case foldM f xs s of None \<Rightarrow> None | Some s' \<Rightarrow> foldM f ys s')"
  by (induction xs arbitrary: s) (simp_all split: option.split)

lemma fold_pointwise:
  assumes "\<And>c. F (F c) = F c"
  shows "fold (\<lambda>v g. g(addr v := F (g (addr v)))) vs g a =
           (if a \<in> addr ` set vs then F (g a) else g a)"
  by (induction vs arbitrary: g) (auto simp: assms)

lemma fold_invariant_eq:
  assumes "I g" and "\<And>v g. v \<in> set vs \<Longrightarrow> I g \<Longrightarrow> f v g = f' v g \<and> I (f' v g)"
  shows "fold f vs g = fold f' vs g \<and> I (fold f' vs g)"
  using assms by (induction vs arbitrary: g) simp_all

subsection \<open>Degenerate shapes\<close>

lemma fill_voxel_no_dims: "nx \<le> 0 \<or> ny \<le> 0 \<or> nz \<le> 0 \<Longrightarrow> fill_voxel nx ny nz x y z H v g = g"
  by (cases v) (auto simp: fill_voxel_def Let_def)

lemma fill_atom_no_dims:
  "nx \<le> 0 \<or> ny \<le> 0 \<or> nz \<le> 0 \<Longrightarrow> atom_defined atoms reference sincos step probe atom \<Longrightarrow>
   fill_atom nx ny nz atoms reference sincos step probe atom g = Some g"
  by (auto simp: fill_atom_def atom_defined_def Let_def fold_id fill_voxel_no_dims
      split: prod.splits option.splits)

lemma fill_no_dims:
  "nx \<le> 0 \<or> ny \<le> 0 \<or> nz \<le> 0 \<Longrightarrow> atoms_defined atoms natoms reference sincos step probe \<Longrightarrow>
   fill g nx ny nz atoms natoms reference sincos step probe = Some g"
  unfolding fill_def
  by (rule foldM_id) (simp add: atoms_defined_def list_all_iff fill_atom_no_dims)

lemma fill_no_atoms:
  "natoms \<le> 0 \<Longrightarrow> fill g nx ny nz atoms natoms reference sincos step probe = Some g"
  by (simp add: fill_def)

lemma atoms_defined_no_atoms: "natoms \<le> 0 \<Longrightarrow> atoms_defined atoms natoms reference sincos step probe"
  by (simp add: atoms_defined_def)

lemma filter_enclosed_regions_no_dims:
  "nx \<le> 0 \<or> ny \<le> 0 \<or> nz \<le> 0 \<Longrightarrow> filter_enclosed_regions fuel g points0 nx ny nz = Some g"
  by (simp add: filter_enclosed_regions_def cluster_def voxels_empty)

lemma surface_no_dims:
  assumes "nx \<le> 0 \<or> ny \<le> 0 \<or> nz \<le> 0"
    and "atoms_defined atoms natoms reference sincos step probe"
  shows "surface fuel g points0 sz nx ny nz atoms natoms reference sincos step probe is_ses =
           Some (igrid g sz)"
  using assms(1)
  by (simp add: surface_def Let_def fill_no_dims[OF assms] ses_def ses_pass_a_def filter_surface_def
      filter_noise_points_def filter_enclosed_regions_no_dims voxels_empty)

subsection \<open>A grid without bulk\<close>

lemma check_protein_neighbours_none:
  assumes "\<forall>(x, y, z) \<in> set (voxels nx ny nz). g (vox ny nz x y z) \<noteq> 0 \<and> g (vox ny nz x y z) \<noteq> - 2"
  shows "check_protein_neighbours g nx ny nz i j k = 0"
proof -
  have "find (\<lambda>(x, y, z). inside nx ny nz x y z \<and>
          (g (vox ny nz x y z) = 0 \<or> g (vox ny nz x y z) = - 2)) (cube i j k) = None"
    using assms unfolding find_None_iff inside_voxels by blast
  then show ?thesis by (simp add: check_protein_neighbours_def)
qed

lemma ses_no_protein:
  assumes "\<forall>(x, y, z) \<in> set (voxels nx ny nz). g (vox ny nz x y z) \<noteq> 0 \<and> g (vox ny nz x y z) \<noteq> - 2"
  shows "ses g nx ny nz step probe = g"
proof -
  have a: "ses_pass_a g nx ny nz step probe = g"
    unfolding ses_pass_a_def Let_def
  proof (rule fold_id)
    fix v
    show "ses_mark nx ny nz step probe \<lceil>probe / step\<rceil> v g = g"
      by (cases v) (simp add: ses_mark_def check_protein_neighbours_none[OF assms])
  qed
  show ?thesis
    unfolding ses_def a
    by (rule fold_id) (use assms in \<open>auto simp: ses_promote_def\<close>)
qed

subsection \<open>The atom to surface mapper\<close>

lemma interface_voxel_hit:
  "interface_voxel g nx ny nz x y z H atom v r =
     (if voxel_hit g nx ny nz x y z H v
      then (if old_atom r \<noteq> atom
            then r\<lparr>reslist := insert_res (reslist r) atom, count := count r + 1, old_atom := atom\<rparr>
            else r)
      else r)"
  by (cases v) (simp add: interface_voxel_def voxel_hit_def Let_def)

lemma fold_interface_voxel:
  "fold (interface_voxel g nx ny nz x y z H atom) vs r =
     (if list_ex (voxel_hit g nx ny nz x y z H) vs
      then (if old_atom r \<noteq> atom
            then r\<lparr>reslist := insert_res (reslist r) atom, count := count r + 1, old_atom := atom\<rparr>
            else r)
      else r)"
  by (induction vs arbitrary: r) (simp_all add: interface_voxel_hit)

lemma interface_atom_touches:
  "interface_atom g nx ny nz atoms reference sincos step probe atom r =
     (if atom_defined atoms reference sincos step probe atom
      then Some (if atom_touches g nx ny nz atoms reference sincos step probe atom
                 then (if old_atom r \<noteq> atom
                       then r\<lparr>reslist := insert_res (reslist r) atom, count := count r + 1,
                              old_atom := atom\<rparr>
                       else r)
                 else r)
      else None)"
  by (auto simp add: interface_atom_def atom_touches_def atom_defined_def fold_interface_voxel Let_def
      split: prod.split option.split)

text \<open>A node whose \<open>pos\<close> is above every \<open>pos\<close> of the list goes to its end.\<close>

lemma advance_append: "\<forall>p \<in> set rl. p < a \<Longrightarrow> advance rl a = rl @ [a]"
  by (induction rl) simp_all

lemma insert_res_append: "\<forall>p \<in> set rl. p < a \<Longrightarrow> insert_res rl a = rl @ [a]"
  by (cases rl) (simp_all add: insert_res_def advance_append)

text \<open>
  The loop over the atoms, from any state whose list holds only atoms up to \<open>old_atom\<close>,
  over atoms above \<open>old_atom\<close> in ascending order.
\<close>

lemma foldM_interface_atom:
  assumes "sorted_wrt (<) as" and "\<forall>a \<in> set as. old_atom r < a"
    and "\<forall>p \<in> set (reslist r). p \<le> old_atom r"
    and "list_all (atom_defined atoms reference sincos step probe) as"
  shows "\<exists>r'. foldM (interface_atom g nx ny nz atoms reference sincos step probe) as r = Some r' \<and>
           reslist r' = reslist r @ filter (atom_touches g nx ny nz atoms reference sincos step probe) as \<and>
           count r' =
             count r + int (length (filter (atom_touches g nx ny nz atoms reference sincos step probe) as))"
  using assms
proof (induction as arbitrary: r)
  case Nil
  then show ?case by simp
next
  case (Cons a as)
  have lt: "\<forall>p \<in> set (reslist r). p < a" using Cons.prems by fastforce
  have ne: "old_atom r \<noteq> a" using Cons.prems by auto
  have d: "atom_defined atoms reference sincos step probe a"
    "list_all (atom_defined atoms reference sincos step probe) as"
    using Cons.prems(4) by simp_all
  show ?case
  proof (cases "atom_touches g nx ny nz atoms reference sincos step probe a")
    case True
    let ?r = "r\<lparr>reslist := reslist r @ [a], count := count r + 1, old_atom := a\<rparr>"
    have r': "interface_atom g nx ny nz atoms reference sincos step probe a r = Some ?r"
      using True ne lt d(1) by (simp add: interface_atom_touches insert_res_append)
    have "sorted_wrt (<) as" "\<forall>b \<in> set as. old_atom ?r < b"
      "\<forall>p \<in> set (reslist ?r). p \<le> old_atom ?r"
      using Cons.prems lt by auto
    from Cons.IH[OF this d(2)] True show ?thesis by (auto simp: r')
  next
    case False
    then have r': "interface_atom g nx ny nz atoms reference sincos step probe a r = Some r"
      using d(1) by (simp add: interface_atom_touches)
    have "sorted_wrt (<) as" "\<forall>b \<in> set as. old_atom r < b"
      "\<forall>p \<in> set (reslist r). p \<le> old_atom r"
      using Cons.prems by auto
    from Cons.IH[OF this d(2)] False show ?thesis by (simp add: r')
  qed
qed

lemma interface_scan_filter:
  assumes "atoms_defined atoms natoms reference sincos step probe"
  shows "\<exists>r. interface_scan g nx ny nz atoms natoms reference sincos step probe = Some r \<and>
           reslist r = filter (atom_touches g nx ny nz atoms reference sincos step probe) [0..natoms - 1] \<and>
           count r =
             int (length (filter (atom_touches g nx ny nz atoms reference sincos step probe) [0..natoms - 1]))"
  unfolding interface_scan_def
  using foldM_interface_atom[of "[0..natoms - 1]" "\<lparr>reslist = [], count = 0, old_atom = - 1\<rparr>"
      atoms reference sincos step probe g nx ny nz] assms
  by (simp add: sorted_wrt_upto atoms_defined_def)

lemma interface_scan_undefined:
  assumes "\<not> atoms_defined atoms natoms reference sincos step probe"
  shows "interface_scan g nx ny nz atoms natoms reference sincos step probe = None"
  unfolding interface_scan_def
  by (rule foldM_None) (use assms in \<open>auto simp: atoms_defined_def list_all_iff interface_atom_touches\<close>)

text \<open>The copy loop writes the slots \<open>j, j + 1, ...\<close> and leaves the others.\<close>

lemma copy_residues_take:
  "j + length rl \<le> length residues \<Longrightarrow>
   copy_residues pdb rl residues j =
     (take j residues @ map pdb rl @ drop (j + length rl) residues, j + length rl)"
proof (induction rl arbitrary: residues j)
  case Nil
  then show ?case by simp
next
  case (Cons pos rl)
  have j: "j < length residues" using Cons.prems by simp
  have "copy_residues pdb (pos # rl) residues j = copy_residues pdb rl (residues[j := pdb pos]) (j + 1)"
    by simp
  also have "\<dots> = (take (j + 1) (residues[j := pdb pos]) @ map pdb rl @
                     drop (j + 1 + length rl) (residues[j := pdb pos]), j + 1 + length rl)"
    using Cons.prems by (intro Cons.IH) simp
  also have "take (j + 1) (residues[j := pdb pos]) = take j residues @ [pdb pos]"
    using j by (simp add: take_Suc_conv_app_nth)
  finally show ?case by simp
qed

lemma interface_residues:
  assumes "atoms_defined atoms natoms reference sincos step probe"
  shows "\<exists>r. interface_scan g nx ny nz atoms natoms reference sincos step probe = Some r \<and>
           reslist r = filter (atom_touches g nx ny nz atoms reference sincos step probe) [0..natoms - 1] \<and>
           interface g nx ny nz pdb atoms natoms reference sincos step probe =
             Some (map pdb (reslist r) @ [None])"
proof -
  from interface_scan_filter[OF assms, of g nx ny nz] obtain r where
    r: "interface_scan g nx ny nz atoms natoms reference sincos step probe = Some r"
    "reslist r = filter (atom_touches g nx ny nz atoms reference sincos step probe) [0..natoms - 1]"
    "count r = int (length (filter (atom_touches g nx ny nz atoms reference sincos step probe) [0..natoms - 1]))"
    by blast
  have c: "count r = int (length (reslist r))"
    by (simp add: r)
  have rep: "replicate (nat (count r + 1)) None =
               replicate (length (reslist r)) None @ [None::string option]"
    by (simp add: c nat_add_distrib replicate_append_same)
  have "copy_residues pdb (reslist r) (replicate (length (reslist r)) None @ [None]) 0 =
          (map pdb (reslist r) @ [None], length (reslist r))"
    using copy_residues_take[of 0 "reslist r" "replicate (length (reslist r)) None @ [None]" pdb]
    by simp
  then have "interface g nx ny nz pdb atoms natoms reference sincos step probe =
               Some (map pdb (reslist r) @ [None])"
    by (simp add: interface_def r(1) Let_def rep list_update_append del: replicate_Suc)
  then show ?thesis using r by blast
qed

lemma interface_undefined:
  assumes "\<not> atoms_defined atoms natoms reference sincos step probe"
  shows "interface g nx ny nz pdb atoms natoms reference sincos step probe = None"
  by (simp add: interface_def interface_scan_undefined[OF assms])

text \<open>
  The box of an atom holds every voxel at distance at most \<open>H\<close> from its center, so the
  tests of \<^verbatim>\<open>_interface\<close> find a voxel exactly when one exists with every index strictly
  between \<open>0\<close> and the grid's extent.
\<close>

lemma abs_le_sqrt3: "\<bar>a\<bar> \<le> sqrt (a\<^sup>2 + b\<^sup>2 + c\<^sup>2)" "\<bar>b\<bar> \<le> sqrt (a\<^sup>2 + b\<^sup>2 + c\<^sup>2)" "\<bar>c\<bar> \<le> sqrt (a\<^sup>2 + b\<^sup>2 + c\<^sup>2)"
  by (rule real_le_rsqrt, simp)+

lemma in_upto_floor_ceiling:
  assumes "\<bar>of_int i - x\<bar> \<le> (H::real)"
  shows "i \<in> set [\<lfloor>x - H\<rfloor>..\<lceil>x + H\<rceil>]"
proof -
  have "x - H \<le> of_int i" "of_int i \<le> x + H" using assms by linarith+
  then have "\<lfloor>x - H\<rfloor> \<le> i" "i \<le> \<lceil>x + H\<rceil>"
    by (simp_all add: floor_le_iff le_ceiling_iff)
  then show ?thesis by simp
qed

lemma for_values_Some: "for_values lo hi = Some xs \<Longrightarrow> xs = [\<lfloor>lo\<rfloor>..\<lceil>hi\<rceil>]"
  by (simp add: for_values_def split: if_splits)

text \<open>
  The loop nest has a value, the full box, whenever the radius is not negative and the
  bounds lie within \<^verbatim>\<open>int\<close>.
\<close>

lemma for_values_within_int:
  assumes "0 \<le> H" and "int_min \<le> \<lfloor>x - H\<rfloor>" and "\<lceil>x + H\<rceil> < int_max"
  shows "for_values (x - H) (x + H) = Some [\<lfloor>x - H\<rfloor>..\<lceil>x + H\<rceil>]"
proof -
  have "x - H \<le> x + H" using assms(1) by simp
  then have "\<lfloor>x - H\<rfloor> \<le> \<lceil>x + H\<rceil>" by (meson ceiling_mono floor_le_ceiling order_trans)
  then show ?thesis using assms(2,3) by (simp add: for_values_def)
qed

lemma box_within_int:
  assumes "0 \<le> H"
    and "int_min \<le> \<lfloor>x - H\<rfloor>" "\<lceil>x + H\<rceil> < int_max"
    and "int_min \<le> \<lfloor>y - H\<rfloor>" "\<lceil>y + H\<rceil> < int_max"
    and "int_min \<le> \<lfloor>z - H\<rfloor>" "\<lceil>z + H\<rceil> < int_max"
  shows "box x y z H = Some [(i, j, k). i \<leftarrow> [\<lfloor>x - H\<rfloor>..\<lceil>x + H\<rceil>], j \<leftarrow> [\<lfloor>y - H\<rfloor>..\<lceil>y + H\<rceil>],
                                        k \<leftarrow> [\<lfloor>z - H\<rfloor>..\<lceil>z + H\<rceil>]]"
  by (simp add: box_def for_values_within_int[OF assms(1)] assms)

lemma set_box:
  assumes "box x y z H = Some vs"
  shows "set vs = {(i, j, k). i \<in> set [\<lfloor>x - H\<rfloor>..\<lceil>x + H\<rceil>] \<and> j \<in> set [\<lfloor>y - H\<rfloor>..\<lceil>y + H\<rceil>] \<and> k \<in> set [\<lfloor>z - H\<rfloor>..\<lceil>z + H\<rceil>]}"
proof -
  obtain xs where xs: "for_values (x - H) (x + H) = Some xs"
    using assms by (auto simp: box_def split: option.splits)
  note xs' = for_values_Some[OF xs]
  show ?thesis
  proof (cases "xs = []")
    case True
    then have "vs = []" using assms by (simp add: box_def xs)
    then show ?thesis using True xs' by auto
  next
    case False
    then obtain ys where ys: "for_values (y - H) (y + H) = Some ys"
      using assms by (auto simp: box_def xs split: option.splits)
    note ys' = for_values_Some[OF ys]
    show ?thesis
    proof (cases "ys = []")
      case True
      then have "vs = []" using assms False by (simp add: box_def xs ys)
      then show ?thesis using True ys' by auto
    next
      case ne: False
      then obtain zs where zs: "for_values (z - H) (z + H) = Some zs"
        using assms False by (auto simp: box_def xs ys split: option.splits)
      have "vs = concat (map (\<lambda>i. concat (map (\<lambda>j. map (\<lambda>k. (i, j, k)) zs) ys)) xs)"
        using assms False ne by (simp add: box_def xs ys zs)
      then show ?thesis
        unfolding xs'[symmetric] ys'[symmetric] for_values_Some[OF zs, symmetric]
        by (simp only: set_nest3)
    qed
  qed
qed

lemma list_ex_voxel_hit:
  assumes "box x y z H = Some vs"
  shows "list_ex (voxel_hit g nx ny nz x y z H) vs \<longleftrightarrow>
     (\<exists>i j k. 0 < i \<and> i < nx \<and> 0 < j \<and> j < ny \<and> 0 < k \<and> k < nz \<and> g (vox ny nz i j k) = 1 \<and>
        sqrt ((of_int i - x)\<^sup>2 + (of_int j - y)\<^sup>2 + (of_int k - z)\<^sup>2) \<le> H)"
proof
  assume "list_ex (voxel_hit g nx ny nz x y z H) vs"
  then show "\<exists>i j k. 0 < i \<and> i < nx \<and> 0 < j \<and> j < ny \<and> 0 < k \<and> k < nz \<and> g (vox ny nz i j k) = 1 \<and>
        sqrt ((of_int i - x)\<^sup>2 + (of_int j - y)\<^sup>2 + (of_int k - z)\<^sup>2) \<le> H"
    by (auto simp: list_ex_iff voxel_hit_def)
next
  assume "\<exists>i j k. 0 < i \<and> i < nx \<and> 0 < j \<and> j < ny \<and> 0 < k \<and> k < nz \<and> g (vox ny nz i j k) = 1 \<and>
        sqrt ((of_int i - x)\<^sup>2 + (of_int j - y)\<^sup>2 + (of_int k - z)\<^sup>2) \<le> H"
  then obtain i j k where h: "0 < i" "i < nx" "0 < j" "j < ny" "0 < k" "k < nz" "g (vox ny nz i j k) = 1"
    "sqrt ((of_int i - x)\<^sup>2 + (of_int j - y)\<^sup>2 + (of_int k - z)\<^sup>2) \<le> H" by blast
  have "\<bar>of_int i - x\<bar> \<le> H"
    using abs_le_sqrt3(1)[of "of_int i - x" "of_int j - y" "of_int k - z"] h(8) by linarith
  moreover have "\<bar>of_int j - y\<bar> \<le> H"
    using abs_le_sqrt3(2)[of "of_int j - y" "of_int i - x" "of_int k - z"] h(8) by linarith
  moreover have "\<bar>of_int k - z\<bar> \<le> H"
    using abs_le_sqrt3(3)[of "of_int k - z" "of_int i - x" "of_int j - y"] h(8) by linarith
  ultimately have "(i, j, k) \<in> set vs"
    by (simp add: set_box[OF assms] in_upto_floor_ceiling del: set_upto)
  moreover have "voxel_hit g nx ny nz x y z H (i, j, k)"
    using h by (simp add: voxel_hit_def)
  ultimately show "list_ex (voxel_hit g nx ny nz x y z H) vs"
    unfolding list_ex_iff by blast
qed

lemma atom_touches_iff:
  assumes "atom_defined atoms reference sincos step probe atom"
    and "grid_coords atoms reference sincos step atom = (x, y, z)"
  shows "atom_touches g nx ny nz atoms reference sincos step probe atom \<longleftrightarrow>
     (\<exists>i j k. 0 < i \<and> i < nx \<and> 0 < j \<and> j < ny \<and> 0 < k \<and> k < nz \<and> g (vox ny nz i j k) = 1 \<and>
        sqrt ((of_int i - x)\<^sup>2 + (of_int j - y)\<^sup>2 + (of_int k - z)\<^sup>2) \<le>
          (probe + atoms (3 + (atom * 4))) / step)"
proof -
  obtain vs where vs: "box x y z ((probe + atoms (3 + (atom * 4))) / step) = Some vs"
    using assms by (auto simp: atom_defined_def)
  show ?thesis
    unfolding list_ex_voxel_hit[OF vs, symmetric]
    by (simp add: atom_touches_def assms(2) vs)
qed

subsection \<open>The clustering returns\<close>

lemma foldM_total:
  assumes "I s" and "\<And>x s. x \<in> set xs \<Longrightarrow> I s \<Longrightarrow> \<exists>s'. f x s = Some s' \<and> I s'"
  shows "\<exists>s'. foldM f xs s = Some s' \<and> I s'"
  using assms
proof (induction xs arbitrary: s)
  case Nil
  then show ?case by simp
next
  case (Cons x xs)
  from Cons.prems(2)[of x s] Cons.prems(1) obtain s1 where s1: "f x s = Some s1" "I s1" by auto
  from Cons.IH[OF s1(2)] Cons.prems(2) obtain s2 where "foldM f xs s1 = Some s2" "I s2" by auto
  then show ?case using s1 by simp
qed

lemma flood_and_fill_total:
  "budget_ok s \<Longrightarrow> 1 \<le> n \<Longrightarrow> 10000 \<le> int n + points s \<Longrightarrow>
   \<exists>s'. flood_and_fill n nx ny nz t v s = Some s' \<and> budget_ok s' \<and> points s \<le> points s'"
proof (induction n arbitrary: v s)
  case 0
  then show ?case by simp
next
  case (Suc n)
  obtain i j k where v: "v = (i, j, k)" by (cases v)
  let ?face = "i = 0 \<or> i = nx - 1 \<or> j = 0 \<or> j = ny - 1 \<or> k = 0 \<or> k = nz - 1"
  show ?case
  proof (cases "\<not> ?face \<and> grid s (vox ny nz i j k) = 1 \<and> big s = 0")
    case False
    then show ?thesis using Suc.prems(1) by (auto simp: v)
  next
    case True
    then have p: "points s < 10000" using Suc.prems(1) by (simp add: budget_ok_def)
    let ?s1 = "s\<lparr>grid := (grid s)(vox ny nz i j k := t), points := points s + 1\<rparr>"
    show ?thesis
    proof (cases "points s + 1 = 10000")
      case full: True
      have "flood_and_fill (Suc n) nx ny nz t v s = Some (?s1\<lparr>big := 1\<rparr>)"
        using True full by (simp add: v Let_def)
      then show ?thesis by (simp add: budget_ok_def)
    next
      case room: False
      have eq: "flood_and_fill (Suc n) nx ny nz t v s =
                  foldM (flood_and_fill n nx ny nz t) (cube i j k) ?s1"
        using True room by (simp add: v Let_def)
      let ?I = "\<lambda>s'. budget_ok s' \<and> points s + 1 \<le> points s'"
      have n: "1 \<le> n" using Suc.prems(3) p room by linarith
      have "\<exists>s'. foldM (flood_and_fill n nx ny nz t) (cube i j k) ?s1 = Some s' \<and> ?I s'"
      proof (rule foldM_total[where I = ?I])
        show "?I ?s1" using p room by (simp add: budget_ok_def)
      next
        fix x s' assume "?I s'"
        then have "budget_ok s'" "10000 \<le> int n + points s'" using Suc.prems(3) by auto
        from Suc.IH[OF this(1) n this(2), of x] \<open>?I s'\<close>
        show "\<exists>s''. flood_and_fill n nx ny nz t x s' = Some s'' \<and> ?I s''" by auto
      qed
      then show ?thesis unfolding eq by auto
    qed
  qed
qed


lemma flood_and_fill_skip:
  "on_face nx ny nz v \<or> grid s ((\<lambda>(i, j, k). vox ny nz i j k) v) \<noteq> 1 \<or> big s \<noteq> 0 \<Longrightarrow>
   flood_and_fill (Suc n) nx ny nz t v s = Some s"
  by (cases v) (auto simp: on_face_def)

lemma rescan_voxel_total:
  assumes "10000 \<le> fuel"
  shows "\<exists>p'. rescan_voxel fuel nx ny nz v p = Some p' \<and> tag p' = tag p"
proof -
  obtain i j k where v: "v = (i, j, k)" by (cases v)
  let ?s = "(glob p)\<lparr>big := 0, points := 0\<rparr>"
  have "budget_ok ?s" by (simp add: budget_ok_def)
  moreover have "1 \<le> fuel" "10000 \<le> int fuel + points ?s" using assms by simp_all
  ultimately obtain s' where "flood_and_fill fuel nx ny nz (tag p) v ?s = Some s'"
    using flood_and_fill_total by blast
  then show ?thesis by (simp add: rescan_voxel_def v Let_def)
qed

lemma rescan_voxel_face:
  assumes "1 \<le> fuel" and "on_face nx ny nz v"
  shows "\<exists>p'. rescan_voxel fuel nx ny nz v p = Some p' \<and> big (glob p') = 0 \<and> tag p' = tag p"
proof -
  obtain i j k where v: "v = (i, j, k)" by (cases v)
  obtain n where n: "fuel = Suc n" using assms(1) by (cases fuel) auto
  have "flood_and_fill fuel nx ny nz (tag p) (i, j, k) ((glob p)\<lparr>big := 0, points := 0\<rparr>) =
          Some ((glob p)\<lparr>big := 0, points := 0\<rparr>)"
    unfolding n by (rule flood_and_fill_skip) (use assms(2) v in simp)
  then show ?thesis by (simp add: rescan_voxel_def v Let_def)
qed

lemma rescan_total:
  assumes "10000 \<le> fuel" and "0 < nx" "0 < ny" "0 < nz"
  shows "\<exists>p'. foldM (rescan_voxel fuel nx ny nz) (voxels nx ny nz) p = Some p' \<and>
           big (glob p') = 0 \<and> tag p' = tag p"
proof -
  obtain vs where vs: "voxels nx ny nz = vs @ [(nx - 1, ny - 1, nz - 1)]"
    using voxels_last[OF assms(2-4)] by blast
  have "\<exists>p1. foldM (rescan_voxel fuel nx ny nz) vs p = Some p1 \<and> tag p1 = tag p"
  proof (rule foldM_total[where I = "\<lambda>q. tag q = tag p"])
    show "tag p = tag p" by simp
  next
    fix x and q :: pruner assume "tag q = tag p"
    then show "\<exists>q'. rescan_voxel fuel nx ny nz x q = Some q' \<and> tag q' = tag p"
      using rescan_voxel_total[OF assms(1), of nx ny nz x q] by auto
  qed
  then obtain p1 where p1: "foldM (rescan_voxel fuel nx ny nz) vs p = Some p1" "tag p1 = tag p"
    by blast
  have "on_face nx ny nz (nx - 1, ny - 1, nz - 1)" by (simp add: on_face_def)
  from rescan_voxel_face[OF _ this, of fuel p1] assms(1)
  obtain p' where "rescan_voxel fuel nx ny nz (nx - 1, ny - 1, nz - 1) p1 = Some p'"
    "big (glob p') = 0" "tag p' = tag p1" by auto
  then show ?thesis using p1 by (simp add: vs foldM_append)
qed

lemma big_loop_once:
  assumes "10000 \<le> fuel" and "0 < nx" "0 < ny" "0 < nz"
  shows "big_loop (Suc (Suc n)) fuel nx ny nz p =
           (if big (glob p) \<noteq> 0
            then foldM (rescan_voxel fuel nx ny nz) (voxels nx ny nz) (p\<lparr>aux := 0\<rparr>)
            else Some p)"
proof (cases "big (glob p) \<noteq> 0")
  case False
  then show ?thesis by simp
next
  case True
  from rescan_total[OF assms, of "p\<lparr>aux := 0\<rparr>"] obtain p' where
    p': "foldM (rescan_voxel fuel nx ny nz) (voxels nx ny nz) (p\<lparr>aux := 0\<rparr>) = Some p'" "big (glob p') = 0"
    by blast
  then show ?thesis using True by simp
qed

lemma big_loop_total:
  assumes "10000 \<le> fuel" and "0 < nx" "0 < ny" "0 < nz"
  shows "\<exists>p'. big_loop fuel fuel nx ny nz p = Some p' \<and> big (glob p') = 0 \<and> tag p' = tag p \<and>
           (big (glob p) = 0 \<longrightarrow> p' = p)"
proof -
  obtain n where n: "fuel = Suc (Suc n)" using assms(1) by (cases fuel; cases "fuel - 1") auto
  from rescan_total[OF assms, of "p\<lparr>aux := 0\<rparr>"] obtain p' where
    p': "foldM (rescan_voxel fuel nx ny nz) (voxels nx ny nz) (p\<lparr>aux := 0\<rparr>) = Some p'"
    "big (glob p') = 0" "tag p' = tag p"
    by auto
  have "big_loop fuel fuel nx ny nz p =
          (if big (glob p) \<noteq> 0
           then foldM (rescan_voxel fuel nx ny nz) (voxels nx ny nz) (p\<lparr>aux := 0\<rparr>)
           else Some p)"
    using big_loop_once[OF assms, of n p] n by simp
  then show ?thesis using p' by auto
qed

lemma cluster_voxel_total:
  assumes "10000 \<le> fuel" and "v \<in> set (voxels nx ny nz)" and "big (glob p) = 0"
  shows "\<exists>p'. cluster_voxel fuel nx ny nz v p = Some p' \<and> big (glob p') = 0 \<and>
           tag p' = (if grid (glob p) ((\<lambda>(i, j, k). vox ny nz i j k) v) = 1 then tag p + 1 else tag p) \<and>
           (grid (glob p) ((\<lambda>(i, j, k). vox ny nz i j k) v) \<noteq> 1 \<longrightarrow> p' = p) \<and>
           (on_face nx ny nz v \<longrightarrow> grid (glob p') = grid (glob p))"
proof -
  obtain i j k where v: "v = (i, j, k)" by (cases v)
  have dims: "0 < nx" "0 < ny" "0 < nz" using assms(2) by (auto simp: v set_voxels)
  show ?thesis
  proof (cases "grid (glob p) (vox ny nz i j k) = 1")
    case False
    then show ?thesis using assms(3) by (simp add: cluster_voxel_def v)
  next
    case True
    let ?s = "(glob p)\<lparr>points := 0\<rparr>"
    have "budget_ok ?s" by (simp add: budget_ok_def)
    moreover have "1 \<le> fuel" "10000 \<le> int fuel + points ?s" using assms(1) by simp_all
    ultimately obtain s' where s': "flood_and_fill fuel nx ny nz (tag p + 1) v ?s = Some s'"
      using flood_and_fill_total by blast
    have face: "on_face nx ny nz v \<Longrightarrow> s' = ?s"
    proof -
      assume f: "on_face nx ny nz v"
      obtain n where n: "fuel = Suc n" using assms(1) by (cases fuel) auto
      show "s' = ?s" using s' flood_and_fill_skip[of nx ny nz v ?s n "tag p + 1"] f n by simp
    qed
    let ?q = "p\<lparr>tag := tag p + 1, glob := s', aux := points s'\<rparr>"
    from big_loop_total[OF assms(1) dims, of ?q] obtain p' where
      p': "big_loop fuel fuel nx ny nz ?q = Some p'" "big (glob p') = 0" "tag p' = tag ?q"
      "big (glob ?q) = 0 \<longrightarrow> p' = ?q" by blast
    have "cluster_voxel fuel nx ny nz v p = Some (p'\<lparr>glob := (glob p')\<lparr>points := aux p'\<rparr>\<rparr>)"
      using True s' p'(1) by (simp add: cluster_voxel_def v Let_def)
    moreover have "on_face nx ny nz v \<Longrightarrow> grid (glob p') = grid (glob p)"
      using face p'(4) assms(3) by simp
    ultimately show ?thesis using True p' by (simp add: v)
  qed
qed

lemma cluster_total:
  assumes "10000 \<le> fuel"
  shows "\<exists>p. cluster fuel g points0 nx ny nz = Some p \<and> big (glob p) = 0 \<and> 1 \<le> tag p \<and>
           (tag p = 1 \<longrightarrow> grid (glob p) = g)"
  unfolding cluster_def
proof (rule foldM_total[where I = "\<lambda>p. big (glob p) = 0 \<and> 1 \<le> tag p \<and> (tag p = 1 \<longrightarrow> grid (glob p) = g)"])
  show "big (glob \<lparr>glob = \<lparr>grid = g, points = points0, big = 0\<rparr>, tag = 1, aux = 0\<rparr>) = 0 \<and>
        1 \<le> tag \<lparr>glob = \<lparr>grid = g, points = points0, big = 0\<rparr>, tag = 1, aux = 0\<rparr> \<and>
        (tag \<lparr>glob = \<lparr>grid = g, points = points0, big = 0\<rparr>, tag = 1, aux = 0\<rparr> = 1 \<longrightarrow>
         grid (glob \<lparr>glob = \<lparr>grid = g, points = points0, big = 0\<rparr>, tag = 1, aux = 0\<rparr>) = g)"
    by simp
next
  fix v and p :: pruner
  assume v: "v \<in> set (voxels nx ny nz)"
    and i: "big (glob p) = 0 \<and> 1 \<le> tag p \<and> (tag p = 1 \<longrightarrow> grid (glob p) = g)"
  from cluster_voxel_total[OF assms v, of p] i obtain p' where
    "cluster_voxel fuel nx ny nz v p = Some p'" "big (glob p') = 0"
    "tag p' = (if grid (glob p) ((\<lambda>(i, j, k). vox ny nz i j k) v) = 1 then tag p + 1 else tag p)"
    "grid (glob p) ((\<lambda>(i, j, k). vox ny nz i j k) v) \<noteq> 1 \<longrightarrow> p' = p"
    by blast
  then show "\<exists>p'. cluster_voxel fuel nx ny nz v p = Some p' \<and>
          (big (glob p') = 0 \<and> 1 \<le> tag p' \<and> (tag p' = 1 \<longrightarrow> grid (glob p') = g))"
    using i by (cases "grid (glob p) ((\<lambda>(i, j, k). vox ny nz i j k) v) = 1") auto
qed

text \<open>One step of the marker and of the loop, for a fuel written as a numeral.\<close>

lemma flood_and_fill_unfold:
  "0 < fuel \<Longrightarrow> flood_and_fill fuel nx ny nz t (i, j, k) s =
     (if i = 0 \<or> i = nx - 1 \<or> j = 0 \<or> j = ny - 1 \<or> k = 0 \<or> k = nz - 1 then Some s
      else if grid s (vox ny nz i j k) = 1 \<and> big s = 0
      then (let s = s\<lparr>grid := (grid s)(vox ny nz i j k := t), points := points s + 1\<rparr>;
                s = (if points s = 10000 then s\<lparr>big := 1\<rparr> else s)
            in if big s = 0
               then foldM (flood_and_fill (fuel - 1) nx ny nz t) (cube i j k) s
               else Some s)
      else Some s)"
proof -
  assume "0 < fuel"
  then obtain m where m: "fuel = Suc m" by (cases fuel) auto
  show ?thesis unfolding m by (simp only: flood_and_fill.simps diff_Suc_1)
qed

lemma big_loop_unfold:
  "0 < n \<Longrightarrow> big_loop n fuel nx ny nz p =
     (if big (glob p) \<noteq> 0
      then (case foldM (rescan_voxel fuel nx ny nz) (voxels nx ny nz) (p\<lparr>aux := 0\<rparr>) of
              None \<Rightarrow> None
            | Some p' \<Rightarrow> big_loop (n - 1) fuel nx ny nz p')
      else Some p)"
proof -
  assume "0 < n"
  then obtain m where m: "n = Suc m" by (cases n) auto
  show ?thesis unfolding m by (simp only: big_loop.simps diff_Suc_1)
qed

subsection \<open>What the marker writes\<close>

lemma tagged_from_refl: "tagged_from t g g"
  by (simp add: tagged_from_def)

lemma tagged_fromD: "tagged_from t g g' \<Longrightarrow> g' a = g a \<or> (g a = 1 \<and> g' a = t)"
  by (simp add: tagged_from_def)

lemma tagged_from_trans:
  assumes "tagged_from t g g1" and "tagged_from t g1 g2"
  shows "tagged_from t g g2"
  unfolding tagged_from_def
proof
  fix a
  from tagged_fromD[OF assms(1), of a] tagged_fromD[OF assms(2), of a]
  show "g2 a = g a \<or> (g a = 1 \<and> g2 a = t)" by auto
qed

lemma tagged_from_keeps: "tagged_from t g g' \<Longrightarrow> g a = t \<Longrightarrow> g' a = t"
  using tagged_fromD[of t g g' a] by auto

lemma foldM_rel:
  assumes "foldM f xs s = Some s'"
    and "\<And>x s s'. f x s = Some s' \<Longrightarrow> R s s'"
    and "\<And>s. R s s" and "\<And>a b c. R a b \<Longrightarrow> R b c \<Longrightarrow> R a c"
  shows "R s s'"
  using assms(1)
proof (induction xs arbitrary: s)
  case Nil
  then show ?case using assms(3) by simp
next
  case (Cons x xs)
  then obtain s1 where s1: "f x s = Some s1" "foldM f xs s1 = Some s'"
    by (auto split: option.splits)
  from assms(4)[OF assms(2)[OF s1(1)] Cons.IH[OF s1(2)]] show ?case .
qed

lemma flood_and_fill_tagged:
  "flood_and_fill n nx ny nz t v s = Some s' \<Longrightarrow> tagged_from t (grid s) (grid s')"
proof (induction n arbitrary: v s s')
  case 0
  then show ?case by (cases v) simp
next
  case (Suc n)
  obtain i j k where v: "v = (i, j, k)" by (cases v)
  let ?face = "i = 0 \<or> i = nx - 1 \<or> j = 0 \<or> j = ny - 1 \<or> k = 0 \<or> k = nz - 1"
  show ?case
  proof (cases "\<not> ?face \<and> grid s (vox ny nz i j k) = 1 \<and> big s = 0")
    case False
    then have "s' = s" using Suc.prems by (auto simp: v split: if_splits)
    then show ?thesis by (simp add: tagged_from_refl)
  next
    case True
    let ?s1 = "s\<lparr>grid := (grid s)(vox ny nz i j k := t), points := points s + 1\<rparr>"
    have one: "tagged_from t (grid s) (grid ?s1)"
      using True by (simp add: tagged_from_def)
    show ?thesis
    proof (cases "points s + 1 = 10000")
      case full: True
      have "s' = ?s1\<lparr>big := 1\<rparr>"
        using Suc.prems True full by (simp add: v Let_def)
      then have "grid s' = grid ?s1" by simp
      then show ?thesis using one by (simp only:)
    next
      case room: False
      have "foldM (flood_and_fill n nx ny nz t) (cube i j k) ?s1 = Some s'"
        using Suc.prems True room by (simp add: v Let_def)
      then have "tagged_from t (grid ?s1) (grid s')"
        by (rule foldM_rel[where R = "\<lambda>a b. tagged_from t (grid a) (grid b)"])
          (auto intro: Suc.IH tagged_from_refl tagged_from_trans)
      with one show ?thesis by (rule tagged_from_trans)
    qed
  qed
qed

lemma flood_and_fill_tags_start:
  assumes "flood_and_fill n nx ny nz t (i, j, k) s = Some s'"
    and "\<not> on_face nx ny nz (i, j, k)" and "grid s (vox ny nz i j k) = 1" and "big s = 0"
  shows "grid s' (vox ny nz i j k) = t"
proof -
  obtain m where m: "n = Suc m" using assms(1) by (cases n) auto
  let ?s1 = "s\<lparr>grid := (grid s)(vox ny nz i j k := t), points := points s + 1\<rparr>"
  have face: "\<not> (i = 0 \<or> i = nx - 1 \<or> j = 0 \<or> j = ny - 1 \<or> k = 0 \<or> k = nz - 1)"
    using assms(2) by (simp add: on_face_def)
  show ?thesis
  proof (cases "points s + 1 = 10000")
    case True
    have "s' = ?s1\<lparr>big := 1\<rparr>"
      using assms(1,3,4) face True by (simp add: m Let_def)
    then show ?thesis by simp
  next
    case False
    have "foldM (flood_and_fill m nx ny nz t) (cube i j k) ?s1 = Some s'"
      using assms(1,3,4) face False by (simp add: m Let_def)
    then have "tagged_from t (grid ?s1) (grid s')"
      by (rule foldM_rel[where R = "\<lambda>a b. tagged_from t (grid a) (grid b)"])
        (auto intro: flood_and_fill_tagged tagged_from_refl tagged_from_trans)
    then show ?thesis by (rule tagged_from_keeps) simp
  qed
qed

lemma rescan_voxel_tagged:
  assumes "rescan_voxel fuel nx ny nz v p = Some p'"
  shows "tagged_from (tag p) (grid (glob p)) (grid (glob p')) \<and> tag p' = tag p"
proof -
  obtain i j k where v: "v = (i, j, k)" by (cases v)
  let ?s = "(glob p)\<lparr>big := 0, points := 0\<rparr>"
  show ?thesis
  proof (cases "grid (glob p) (vox ny nz i j k) = 1 \<and>
                check_unclustered_neighbours (grid (glob p)) nx ny nz i j k = tag p")
    case True
    then obtain s' where s': "flood_and_fill fuel nx ny nz (tag p) (i, j, k) ?s = Some s'"
      "p' = p\<lparr>glob := s', aux := aux p + points (glob p)\<rparr>"
      using assms by (auto simp: rescan_voxel_def v Let_def split: option.splits)
    from flood_and_fill_tagged[OF s'(1)] s'(2) show ?thesis by simp
  next
    case False
    then have "p' = p\<lparr>glob := ?s, aux := aux p + points (glob p)\<rparr>"
      using assms by (auto simp: rescan_voxel_def v Let_def)
    then show ?thesis by (simp add: tagged_from_refl)
  qed
qed

lemma rescan_tagged:
  assumes "foldM (rescan_voxel fuel nx ny nz) vs p = Some p'"
  shows "tagged_from (tag p) (grid (glob p)) (grid (glob p')) \<and> tag p' = tag p"
  using assms
proof (rule foldM_rel[where R = "\<lambda>a b. tagged_from (tag a) (grid (glob a)) (grid (glob b)) \<and> tag b = tag a"])
  fix v and q q' :: pruner
  assume "rescan_voxel fuel nx ny nz v q = Some q'"
  then show "tagged_from (tag q) (grid (glob q)) (grid (glob q')) \<and> tag q' = tag q"
    by (rule rescan_voxel_tagged)
next
  fix q :: pruner
  show "tagged_from (tag q) (grid (glob q)) (grid (glob q)) \<and> tag q = tag q"
    by (simp add: tagged_from_refl)
next
  fix a b c :: pruner
  assume "tagged_from (tag a) (grid (glob a)) (grid (glob b)) \<and> tag b = tag a"
    and "tagged_from (tag b) (grid (glob b)) (grid (glob c)) \<and> tag c = tag b"
  then show "tagged_from (tag a) (grid (glob a)) (grid (glob c)) \<and> tag c = tag a"
    using tagged_from_trans[of "tag a" "grid (glob a)" "grid (glob b)" "grid (glob c)"] by simp
qed

lemma big_loop_tagged:
  "big_loop n fuel nx ny nz p = Some p' \<Longrightarrow>
   tagged_from (tag p) (grid (glob p)) (grid (glob p')) \<and> tag p' = tag p \<and>
   (big (glob p) = 0 \<longrightarrow> p' = p)"
proof (induction n arbitrary: p)
  case 0
  then show ?case by simp
next
  case (Suc n)
  show ?case
  proof (cases "big (glob p) \<noteq> 0")
    case False
    then have "p' = p" using Suc.prems by simp
    then show ?thesis by (simp add: tagged_from_refl)
  next
    case True
    then obtain p1 where p1: "foldM (rescan_voxel fuel nx ny nz) (voxels nx ny nz) (p\<lparr>aux := 0\<rparr>) = Some p1"
      "big_loop n fuel nx ny nz p1 = Some p'"
      using Suc.prems by (auto split: option.splits)
    from rescan_tagged[OF p1(1)] have a: "tagged_from (tag p) (grid (glob p)) (grid (glob p1))" "tag p1 = tag p"
      by simp_all
    from Suc.IH[OF p1(2)] have b: "tagged_from (tag p) (grid (glob p1)) (grid (glob p'))" "tag p' = tag p"
      using a(2) by simp_all
    from tagged_from_trans[OF a(1) b(1)] b(2) True show ?thesis by simp
  qed
qed

text \<open>The body of the clustering loop nest at a voxel of tag \<open>1\<close>.\<close>

lemma cluster_voxel_marks:
  assumes "cluster_voxel fuel nx ny nz (i, j, k) p = Some p'"
    and "grid (glob p) (vox ny nz i j k) = 1" and "big (glob p) = 0"
  shows "tag p' = tag p + 1 \<and>
         (\<exists>s. flood_and_fill fuel nx ny nz (tag p + 1) (i, j, k) ((glob p)\<lparr>points := 0\<rparr>) = Some s \<and>
              tagged_from (tag p + 1) (grid s) (grid (glob p')) \<and>
              (big s = 0 \<longrightarrow> grid (glob p') = grid s)) \<and>
         tagged_from (tag p + 1) (grid (glob p)) (grid (glob p')) \<and>
         (\<not> on_face nx ny nz (i, j, k) \<longrightarrow> grid (glob p') (vox ny nz i j k) = tag p + 1)"
proof -
  let ?s0 = "(glob p)\<lparr>points := 0\<rparr>"
  from assms(1,2) obtain s q where
    s: "flood_and_fill fuel nx ny nz (tag p + 1) (i, j, k) ?s0 = Some s"
    and q: "big_loop fuel fuel nx ny nz (p\<lparr>tag := tag p + 1, glob := s, aux := points s\<rparr>) = Some q"
    and p': "p' = q\<lparr>glob := (glob q)\<lparr>points := aux q\<rparr>\<rparr>"
    by (auto simp: cluster_voxel_def Let_def split: option.splits)
  from flood_and_fill_tagged[OF s] have a: "tagged_from (tag p + 1) (grid (glob p)) (grid s)"
    by simp
  from big_loop_tagged[OF q] have b: "tagged_from (tag p + 1) (grid s) (grid (glob q))"
    "tag q = tag p + 1" "big s = 0 \<longrightarrow> grid (glob q) = grid s"
    by auto
  have c: "grid (glob p') = grid (glob q)" "tag p' = tag q" by (simp_all add: p')
  have "grid (glob p') (vox ny nz i j k) = tag p + 1" if "\<not> on_face nx ny nz (i, j, k)"
  proof -
    have "grid s (vox ny nz i j k) = tag p + 1"
      by (rule flood_and_fill_tags_start[OF s that]) (simp_all add: assms)
    with b(1) show ?thesis unfolding c by (rule tagged_from_keeps)
  qed
  then show ?thesis using a b c s tagged_from_trans[OF a b(1)] by auto
qed

subsection \<open>No atoms\<close>

lemma define_surface_points_none:
  assumes "\<forall>(x, y, z) \<in> set (voxels nx ny nz). g (vox ny nz x y z) \<noteq> 0"
  shows "define_surface_points g nx ny nz i j k = - 1"
proof -
  have "find (\<lambda>(x, y, z). inside nx ny nz x y z \<and> g (vox ny nz x y z) = 0) (cube i j k) = None"
    using assms unfolding find_None_iff inside_voxels by blast
  then show ?thesis by (simp add: define_surface_points_def)
qed

lemma filter_surface_no_bulk:
  assumes "\<forall>(x, y, z) \<in> set (voxels nx ny nz). g (vox ny nz x y z) \<noteq> 0"
  shows "filter_surface g nx ny nz a =
           (if a \<in> (\<lambda>(i, j, k). vox ny nz i j k) ` set (voxels nx ny nz) then (if g a = 1 then - 1 else g a)
            else g a)"
proof -
  let ?I = "\<lambda>g. \<forall>(x, y, z) \<in> set (voxels nx ny nz). g (vox ny nz x y z) \<noteq> 0"
  let ?f = "\<lambda>(i, j, k) g. if g (vox ny nz i j k) = 1
              then g(vox ny nz i j k := define_surface_points g nx ny nz i j k) else g"
  let ?F = "\<lambda>c::int. if c = 1 then - 1 else c"
  let ?f' = "\<lambda>v g. g((\<lambda>(i, j, k). vox ny nz i j k) v := ?F (g ((\<lambda>(i, j, k). vox ny nz i j k) v)))"
  have "fold ?f (voxels nx ny nz) g = fold ?f' (voxels nx ny nz) g \<and> ?I (fold ?f' (voxels nx ny nz) g)"
  proof (rule fold_invariant_eq[where I = ?I])
    show "?I g" by (rule assms)
  next
    fix v and g' :: grid assume "v \<in> set (voxels nx ny nz)" and i: "?I g'"
    obtain i j k where v: "v = (i, j, k)" by (cases v)
    have "?f v g' = ?f' v g'"
      by (auto simp: v define_surface_points_none[OF i])
    moreover have "?I (?f' v g')" using i by (auto simp: v)
    ultimately show "?f v g' = ?f' v g' \<and> ?I (?f' v g')" by blast
  qed
  then have "filter_surface g nx ny nz = fold ?f' (voxels nx ny nz) g"
    by (simp add: filter_surface_def)
  then show ?thesis
    by (simp add: fold_pointwise[where F = ?F])
qed

lemma cluster_no_candidates:
  assumes "\<forall>(x, y, z) \<in> set (voxels nx ny nz). g (vox ny nz x y z) \<noteq> 1"
  shows "cluster fuel g points0 nx ny nz =
           Some \<lparr>glob = \<lparr>grid = g, points = points0, big = 0\<rparr>, tag = 1, aux = 0\<rparr>"
  unfolding cluster_def
  by (rule foldM_id) (use assms in \<open>auto simp: cluster_voxel_def\<close>)

lemma filter_enclosed_regions_no_candidates:
  assumes "\<forall>(x, y, z) \<in> set (voxels nx ny nz). g (vox ny nz x y z) \<noteq> 1"
  shows "filter_enclosed_regions fuel g points0 nx ny nz = Some g"
  by (simp add: filter_enclosed_regions_def cluster_no_candidates[OF assms])

lemma filter_noise_points_no_candidates:
  assumes "\<forall>(x, y, z) \<in> set (voxels nx ny nz). g (vox ny nz x y z) \<noteq> 1"
  shows "filter_noise_points g nx ny nz = g"
  unfolding filter_noise_points_def
  by (rule fold_id) (use assms in auto)

lemma voxels_vox_range:
  "(i, j, k) \<in> set (voxels nx ny nz) \<Longrightarrow> 0 \<le> vox ny nz i j k \<and> vox ny nz i j k < nx * ny * nz"
  using vox_range[of i nx j ny k nz] by (simp add: set_voxels)

text \<open>When \<^verbatim>\<open>fill\<close> writes nothing, every voxel of the grid ends as a solvent point.\<close>

lemma surface_nothing_filled:
  assumes "fill (igrid g sz) nx ny nz atoms natoms reference sincos step probe = Some (igrid g sz)"
    and "nx * ny * nz \<le> sz"
  shows "\<exists>g'. surface fuel g points0 sz nx ny nz atoms natoms reference sincos step probe is_ses = Some g' \<and>
           (\<forall>(i, j, k) \<in> set (voxels nx ny nz). g' (vox ny nz i j k) = - 1)"
proof -
  let ?g1 = "igrid g sz"
  have one: "\<forall>(x, y, z) \<in> set (voxels nx ny nz). ?g1 (vox ny nz x y z) = 1"
    using assms(2) voxels_vox_range[of _ _ _ nx ny nz] by (fastforce simp: igrid_apply)
  note f = assms(1)
  have s: "ses ?g1 nx ny nz step probe = ?g1"
    by (rule ses_no_protein) (use one in auto)
  let ?g2 = "filter_surface ?g1 nx ny nz"
  have nb: "\<forall>(x, y, z) \<in> set (voxels nx ny nz). ?g1 (vox ny nz x y z) \<noteq> 0"
    using one by auto
  have m: "\<forall>(x, y, z) \<in> set (voxels nx ny nz). ?g2 (vox ny nz x y z) = - 1"
  proof (clarify)
    fix x y z assume v: "(x, y, z) \<in> set (voxels nx ny nz)"
    then have "vox ny nz x y z \<in> (\<lambda>(i, j, k). vox ny nz i j k) ` set (voxels nx ny nz)"
      by force
    moreover have "?g1 (vox ny nz x y z) = 1" using one v by blast
    ultimately show "?g2 (vox ny nz x y z) = - 1"
      by (simp add: filter_surface_no_bulk[OF nb])
  qed
  then have nc: "\<forall>(x, y, z) \<in> set (voxels nx ny nz). ?g2 (vox ny nz x y z) \<noteq> 1"
    by auto
  have "surface fuel g points0 sz nx ny nz atoms natoms reference sincos step probe is_ses = Some ?g2"
    by (simp add: surface_def Let_def f s filter_enclosed_regions_no_candidates[OF nc]
        filter_noise_points_no_candidates[OF nc])
  then show ?thesis using m by blast
qed

lemma surface_no_atoms:
  assumes "natoms \<le> 0" and "nx * ny * nz \<le> sz"
  shows "\<exists>g'. surface fuel g points0 sz nx ny nz atoms natoms reference sincos step probe is_ses = Some g' \<and>
           (\<forall>(i, j, k) \<in> set (voxels nx ny nz). g' (vox ny nz i j k) = - 1)"
  by (rule surface_nothing_filled[OF fill_no_atoms[OF assms(1)] assms(2)])

text \<open>
  With a negative \<open>step\<close> the radius \<open>H\<close> of an atom in grid units is not positive, unless
  \<open>probe\<close> plus the atom's radius is negative, and no distance lies below it.
\<close>

lemma fill_voxel_no_radius: "H \<le> 0 \<Longrightarrow> fill_voxel nx ny nz x y z H v g = g"
proof -
  assume H: "H \<le> 0"
  have "\<not> sqrt ((of_int i - x)\<^sup>2 + (of_int j - y)\<^sup>2 + (of_int k - z)\<^sup>2) < H" for i j k :: int
  proof -
    have "0 \<le> sqrt ((of_int i - x)\<^sup>2 + (of_int j - y)\<^sup>2 + (of_int k - z)\<^sup>2)" by simp
    with H show ?thesis by linarith
  qed
  then show ?thesis by (cases v) (simp add: fill_voxel_def Let_def)
qed

lemma fill_atom_negative_step:
  assumes "atom_defined atoms reference sincos step probe atom"
    and "step < 0" and "0 \<le> probe + atoms (3 + (atom * 4))"
  shows "fill_atom nx ny nz atoms reference sincos step probe atom g = Some g"
proof -
  have "(probe + atoms (3 + (atom * 4))) / step \<le> 0"
    using assms(2,3) by (simp add: divide_nonneg_neg)
  then show ?thesis
    using assms(1)
    by (auto simp: fill_atom_def atom_defined_def Let_def fold_id fill_voxel_no_radius
        split: prod.splits option.splits)
qed

lemma fill_negative_step:
  assumes "atoms_defined atoms natoms reference sincos step probe"
    and "step < 0" and "\<forall>a. 0 \<le> a \<and> a < natoms \<longrightarrow> 0 \<le> probe + atoms (3 + (a * 4))"
  shows "fill g nx ny nz atoms natoms reference sincos step probe = Some g"
  unfolding fill_def
proof (rule foldM_id)
  fix a assume "a \<in> set [0..natoms - 1]"
  then have "atom_defined atoms reference sincos step probe a" "0 \<le> probe + atoms (3 + (a * 4))"
    using assms(1,3) by (auto simp: atoms_defined_def list_all_iff)
  then show "fill_atom nx ny nz atoms reference sincos step probe a g = Some g"
    using assms(2) by (simp add: fill_atom_negative_step)
qed

lemma atoms_defined_step: "atoms_defined atoms natoms reference sincos step probe \<Longrightarrow> step = 0 \<Longrightarrow> natoms \<le> 0"
proof (rule ccontr)
  assume d: "atoms_defined atoms natoms reference sincos step probe" and s: "step = 0"
    and "\<not> natoms \<le> 0"
  then have "0 \<in> set [0..natoms - 1]" by simp
  then have "atom_defined atoms reference sincos step probe 0"
    using d unfolding atoms_defined_def list_all_iff by blast
  then show False using s by (simp add: atom_defined_def)
qed

lemma interface_no_atoms:
  "natoms \<le> 0 \<Longrightarrow> interface g nx ny nz pdb atoms natoms reference sincos step probe = Some [None]"
  by (simp add: interface_def interface_scan_def)

subsection \<open>The tag conversion and the whole operation\<close>

lemma convert_tag_pointwise:
  "convert_tag ny nz = (\<lambda>v g. g((\<lambda>(i, j, k). vox ny nz i j k) v := converted (g ((\<lambda>(i, j, k). vox ny nz i j k) v))))"
  by (auto simp: convert_tag_def converted_def fun_eq_iff)

lemma fold_convert_tag:
  "fold (convert_tag ny nz) vs g a =
     (if a \<in> (\<lambda>(i, j, k). vox ny nz i j k) ` set vs then converted (g a) else g a)"
  unfolding convert_tag_pointwise
  by (rule fold_pointwise) (simp add: converted_def)

lemma filter_enclosed_regions_total:
  assumes "10000 \<le> fuel"
  shows "\<exists>g'. filter_enclosed_regions fuel g points0 nx ny nz = Some g'"
  using cluster_total[OF assms, of g points0 nx ny nz] by (auto simp: filter_enclosed_regions_def)

lemma fill_atom_defined:
  "atom_defined atoms reference sincos step probe atom \<Longrightarrow>
   \<exists>g'. fill_atom nx ny nz atoms reference sincos step probe atom g = Some g'"
  by (auto simp: fill_atom_def atom_defined_def Let_def split: prod.splits option.splits)

lemma fill_defined:
  assumes "atoms_defined atoms natoms reference sincos step probe"
  shows "\<exists>g'. fill g nx ny nz atoms natoms reference sincos step probe = Some g'"
proof -
  have "\<exists>g'. foldM (fill_atom nx ny nz atoms reference sincos step probe) [0..natoms - 1] g = Some g' \<and> True"
    by (rule foldM_total[where I = "\<lambda>_. True"])
      (use assms in \<open>auto simp: atoms_defined_def list_all_iff fill_atom_defined\<close>)
  then show ?thesis by (simp add: fill_def)
qed

lemma surface_total:
  assumes "10000 \<le> fuel" and "atoms_defined atoms natoms reference sincos step probe"
  shows "\<exists>g'. surface fuel g points0 sz nx ny nz atoms natoms reference sincos step probe is_ses = Some g'"
proof -
  obtain g1 where g1: "fill (igrid g sz) nx ny nz atoms natoms reference sincos step probe = Some g1"
    using fill_defined[OF assms(2)] by blast
  let ?g = "filter_surface (if is_ses \<noteq> 0 then ses g1 nx ny nz step probe else g1) nx ny nz"
  obtain g' where "filter_enclosed_regions fuel ?g points0 nx ny nz = Some g'"
    using filter_enclosed_regions_total[OF assms(1)] by blast
  then show ?thesis by (simp add: surface_def Let_def g1)
qed

subsection \<open>The SES adjustment\<close>

lemma sqrt_less_iff_sq: "0 < q \<Longrightarrow> sqrt x < q \<longleftrightarrow> x < q\<^sup>2"
  using real_sqrt_less_iff[of x "q\<^sup>2"] by simp

lemma ses_promote_pointwise:
  "ses_promote ny nz = (\<lambda>v g. g((\<lambda>(i, j, k). vox ny nz i j k) v := promoted (g ((\<lambda>(i, j, k). vox ny nz i j k) v))))"
  by (auto simp: ses_promote_def promoted_def fun_eq_iff)

lemma fold_ses_promote:
  "fold (ses_promote ny nz) vs g a =
     (if a \<in> (\<lambda>(i, j, k). vox ny nz i j k) ` set vs then promoted (g a) else g a)"
  unfolding ses_promote_pointwise
  by (rule fold_pointwise) (simp add: promoted_def)

lemma sum_squares_lt_1:
  assumes "sqrt ((of_int a)\<^sup>2 + (of_int b)\<^sup>2 + (of_int c)\<^sup>2) < q" and "q \<le> 1"
  shows "a = 0 \<and> b = 0 \<and> c = 0"
proof -
  have "sqrt ((of_int a)\<^sup>2 + (of_int b)\<^sup>2 + (of_int c)\<^sup>2) < 1" using assms by linarith
  then have "(real_of_int a)\<^sup>2 + (real_of_int b)\<^sup>2 + (real_of_int c)\<^sup>2 < 1"
    by (simp only: real_sqrt_lt_1_iff)
  then have "real_of_int (a\<^sup>2 + b\<^sup>2 + c\<^sup>2) < real_of_int 1" by simp
  then have "a\<^sup>2 + b\<^sup>2 + c\<^sup>2 < 1" by (simp only: of_int_less_iff)
  moreover have "0 \<le> a\<^sup>2" "0 \<le> b\<^sup>2" "0 \<le> c\<^sup>2" by simp_all
  ultimately have "a\<^sup>2 = 0" "b\<^sup>2 = 0" "c\<^sup>2 = 0" by linarith+
  then show ?thesis by simp
qed

lemma ses_mark_voxel_small_probe:
  assumes "probe / step \<le> 1" and "g (vox ny nz i j k) = 1"
  shows "ses_mark_voxel nx ny nz step probe i j k v g = g"
proof -
  obtain i2 j2 k2 where v: "v = (i2, j2, k2)" by (cases v)
  show ?thesis
  proof (cases "sqrt ((of_int (i - i2))\<^sup>2 + (of_int (j - j2))\<^sup>2 + (of_int (k - k2))\<^sup>2) < probe / step")
    case True
    from sum_squares_lt_1[OF True assms(1)] have "i2 = i" "j2 = j" "k2 = k" by simp_all
    then show ?thesis using assms(2) by (simp add: ses_mark_voxel_def v Let_def)
  next
    case False
    then show ?thesis by (simp add: ses_mark_voxel_def v Let_def)
  qed
qed

lemma ses_pass_a_small_probe:
  assumes "probe / step \<le> 1"
  shows "ses_pass_a g nx ny nz step probe = g"
  unfolding ses_pass_a_def Let_def
proof (rule fold_id)
  fix v :: "int \<times> int \<times> int"
  obtain i j k where v: "v = (i, j, k)" by (cases v)
  show "ses_mark nx ny nz step probe \<lceil>probe / step\<rceil> v g = g"
    by (simp add: ses_mark_def v fold_id ses_mark_voxel_small_probe[OF assms])
qed

lemma ses_apply:
  "ses g nx ny nz step probe a =
     (if a \<in> (\<lambda>(i, j, k). vox ny nz i j k) ` set (voxels nx ny nz)
      then promoted (ses_pass_a g nx ny nz step probe a) else ses_pass_a g nx ny nz step probe a)"
  by (simp add: ses_def fold_ses_promote)


lemma ses_small_probe:
  assumes "probe / step \<le> 1"
  shows "ses (ses g nx ny nz step probe) nx ny nz step probe = ses g nx ny nz step probe"
  by (simp add: fun_eq_iff ses_apply ses_pass_a_small_probe[OF assms] promoted_def)

lemma ses_mark_apply:
  "ses_mark nx ny nz step probe a (i, j, k) g =
     (if g (vox ny nz i j k) = 1
      then if check_protein_neighbours g nx ny nz i j k \<noteq> 0
           then fold (ses_mark_voxel nx ny nz step probe i j k) (around a i j k) g
           else g
      else g)"
  by (simp add: ses_mark_def)

text \<open>
  What the first pass does reach: every bulk voxel with indices strictly between \<open>0\<close> and
  the extents that lies in the cube of a solvent voxel next to bulk, at distance below
  \<open>probe / step\<close> from it, ends the pass with \<open>-2\<close>, whatever was marked before.
\<close>

lemma marked_from_refl: "marked_from g g"
  by (simp add: marked_from_def)

lemma marked_fromD: "marked_from g g' \<Longrightarrow> g' a = g a \<or> (g a = 0 \<and> g' a = - 2)"
  by (simp add: marked_from_def)

lemma marked_from_trans:
  assumes "marked_from g g'" and "marked_from g' g''"
  shows "marked_from g g''"
  unfolding marked_from_def
proof
  fix a
  show "g'' a = g a \<or> (g a = 0 \<and> g'' a = - 2)"
    using marked_fromD[OF assms(1), of a] marked_fromD[OF assms(2), of a] by auto
qed

lemma ses_mark_voxel_marked: "marked_from g (ses_mark_voxel nx ny nz step probe i j k w g)"
  by (cases w) (simp add: ses_mark_voxel_def marked_from_def Let_def)

lemma fold_marked:
  assumes "\<And>x g. marked_from g (f x g)"
  shows "marked_from g (fold f xs g)"
proof (induction xs arbitrary: g)
  case Nil
  then show ?case by (simp add: marked_from_refl)
next
  case (Cons x xs)
  show ?case using marked_from_trans[OF assms[of g x] Cons.IH[of "f x g"]] by simp
qed

lemma ses_mark_marked: "marked_from g (ses_mark nx ny nz step probe a v g)"
  by (cases v) (simp add: ses_mark_apply marked_from_refl fold_marked ses_mark_voxel_marked)

lemma check_protein_neighbours_iff:
  "check_protein_neighbours g nx ny nz i j k \<noteq> 0 \<longleftrightarrow>
     (\<exists>(x, y, z) \<in> set (cube i j k). inside nx ny nz x y z \<and>
        (g (vox ny nz x y z) = 0 \<or> g (vox ny nz x y z) = - 2))"
proof -
  let ?P = "\<lambda>(x, y, z). inside nx ny nz x y z \<and> (g (vox ny nz x y z) = 0 \<or> g (vox ny nz x y z) = - 2)"
  have "check_protein_neighbours g nx ny nz i j k \<noteq> 0 \<longleftrightarrow> find ?P (cube i j k) \<noteq> None"
    by (simp add: check_protein_neighbours_def split: option.split)
  also have "\<dots> \<longleftrightarrow> (\<exists>v \<in> set (cube i j k). ?P v)"
    by (auto simp: find_None_iff)
  finally show ?thesis .
qed

lemma check_protein_neighbours_marked:
  assumes "marked_from g g'" and "check_protein_neighbours g nx ny nz i j k \<noteq> 0"
  shows "check_protein_neighbours g' nx ny nz i j k \<noteq> 0"
proof -
  from assms(2) obtain x y z where h: "(x, y, z) \<in> set (cube i j k)" "inside nx ny nz x y z"
    "g (vox ny nz x y z) = 0 \<or> g (vox ny nz x y z) = - 2"
    unfolding check_protein_neighbours_iff by blast
  have "g' (vox ny nz x y z) = 0 \<or> g' (vox ny nz x y z) = - 2"
    using marked_fromD[OF assms(1), of "vox ny nz x y z"] h(3) by auto
  then show ?thesis unfolding check_protein_neighbours_iff using h(1,2) by blast
qed

lemma fold_ses_mark_voxel_hits:
  assumes "(i2, j2, k2) \<in> set ws"
    and "i2 > 0 \<and> j2 > 0 \<and> k2 > 0 \<and> i2 < nx \<and> j2 < ny \<and> k2 < nz"
    and "sqrt ((of_int (i - i2))\<^sup>2 + (of_int (j - j2))\<^sup>2 + (of_int (k - k2))\<^sup>2) < probe / step"
    and "g (vox ny nz i2 j2 k2) = 0 \<or> g (vox ny nz i2 j2 k2) = - 2"
  shows "fold (ses_mark_voxel nx ny nz step probe i j k) ws g (vox ny nz i2 j2 k2) = - 2"
  using assms(1,4)
proof (induction ws arbitrary: g)
  case Nil
  then show ?case by simp
next
  case (Cons x ws)
  let ?g = "ses_mark_voxel nx ny nz step probe i j k x g"
  have m: "marked_from g ?g" by (rule ses_mark_voxel_marked)
  show ?case
  proof (cases "x = (i2, j2, k2)")
    case True
    then have "?g (vox ny nz i2 j2 k2) = - 2"
      using assms(2,3) Cons.prems(2) by (auto simp: ses_mark_voxel_def Let_def)
    moreover have "marked_from ?g (fold (ses_mark_voxel nx ny nz step probe i j k) ws ?g)"
      by (rule fold_marked) (rule ses_mark_voxel_marked)
    ultimately show ?thesis
      using marked_fromD[of ?g "fold (ses_mark_voxel nx ny nz step probe i j k) ws ?g" "vox ny nz i2 j2 k2"]
      by simp
  next
    case False
    then have "(i2, j2, k2) \<in> set ws" using Cons.prems(1) by simp
    moreover have "?g (vox ny nz i2 j2 k2) = 0 \<or> ?g (vox ny nz i2 j2 k2) = - 2"
      using marked_fromD[OF m, of "vox ny nz i2 j2 k2"] Cons.prems(2) by auto
    ultimately show ?thesis using Cons.IH[of ?g] by simp
  qed
qed

lemma fold_ses_mark_hits:
  assumes "v \<in> set vs" and "v = (i, j, k)" and "marked_from g g'"
    and "g (vox ny nz i j k) = 1" and "check_protein_neighbours g nx ny nz i j k \<noteq> 0"
    and "(i2, j2, k2) \<in> set (around a i j k)"
    and "i2 > 0 \<and> j2 > 0 \<and> k2 > 0 \<and> i2 < nx \<and> j2 < ny \<and> k2 < nz"
    and "sqrt ((of_int (i - i2))\<^sup>2 + (of_int (j - j2))\<^sup>2 + (of_int (k - k2))\<^sup>2) < probe / step"
    and "g (vox ny nz i2 j2 k2) = 0"
  shows "fold (ses_mark nx ny nz step probe a) vs g' (vox ny nz i2 j2 k2) = - 2"
  using assms(1,3)
proof (induction vs arbitrary: g')
  case Nil
  then show ?case by simp
next
  case (Cons x vs)
  let ?g = "ses_mark nx ny nz step probe a x g'"
  have m: "marked_from g' ?g" by (rule ses_mark_marked)
  show ?case
  proof (cases "x = v")
    case True
    have one: "g' (vox ny nz i j k) = 1"
      using marked_fromD[OF Cons.prems(2), of "vox ny nz i j k"] assms(4) by auto
    have cpn: "check_protein_neighbours g' nx ny nz i j k \<noteq> 0"
      by (rule check_protein_neighbours_marked[OF Cons.prems(2) assms(5)])
    have w: "g' (vox ny nz i2 j2 k2) = 0 \<or> g' (vox ny nz i2 j2 k2) = - 2"
      using marked_fromD[OF Cons.prems(2), of "vox ny nz i2 j2 k2"] assms(9) by auto
    have "?g (vox ny nz i2 j2 k2) = - 2"
      using fold_ses_mark_voxel_hits[where g = g' and ws = "around a i j k", OF assms(6,7,8) w] one cpn
      by (simp add: True assms(2) ses_mark_apply)
    moreover have "marked_from ?g (fold (ses_mark nx ny nz step probe a) vs ?g)"
      by (rule fold_marked) (rule ses_mark_marked)
    ultimately show ?thesis
      using marked_fromD[of ?g "fold (ses_mark nx ny nz step probe a) vs ?g" "vox ny nz i2 j2 k2"]
      by simp
  next
    case False
    then have "v \<in> set vs" using Cons.prems(1) by simp
    moreover have "marked_from g ?g" by (rule marked_from_trans[OF Cons.prems(2) m])
    ultimately show ?thesis using Cons.IH[of ?g] by simp
  qed
qed

lemma ses_pass_a_marks_inner_voxels:
  assumes "(i, j, k) \<in> set (voxels nx ny nz)" and "g (vox ny nz i j k) = 1"
    and "check_protein_neighbours g nx ny nz i j k \<noteq> 0"
    and "(i2, j2, k2) \<in> set (around \<lceil>probe / step\<rceil> i j k)"
    and "i2 > 0 \<and> j2 > 0 \<and> k2 > 0 \<and> i2 < nx \<and> j2 < ny \<and> k2 < nz"
    and "sqrt ((of_int (i - i2))\<^sup>2 + (of_int (j - j2))\<^sup>2 + (of_int (k - k2))\<^sup>2) < probe / step"
    and "g (vox ny nz i2 j2 k2) = 0"
  shows "ses_pass_a g nx ny nz step probe (vox ny nz i2 j2 k2) = - 2"
  unfolding ses_pass_a_def Let_def
  by (rule fold_ses_mark_hits[OF assms(1) refl marked_from_refl assms(2-7)])

subsection \<open>The examples, evaluated\<close>

lemma cluster_two_pockets:
  "cluster 10000 two_pockets 0 3 3 5 =
     Some \<lparr>glob = \<lparr>grid = (\<lambda>_. 0)(vox 3 5 1 1 1 := 2, vox 3 5 1 1 3 := 3), points = 1, big = 0\<rparr>,
           tag = 3, aux = 1\<rparr>"
  by (simp add: cluster_def voxels_def upto_unfold cluster_voxel_def two_pockets_def vox_def
      flood_and_fill_unfold big_loop_unfold cube_def Let_def fun_upd_twist)


lemma two_pockets_le_1: "\<forall>(i, j, k) \<in> set (voxels 3 3 5). two_pockets (vox 3 5 i j k) \<le> 1"
  by (auto simp: two_pockets_def)

lemma filter_enclosed_regions_two_pockets:
  "filter_enclosed_regions 10000 two_pockets 0 3 3 5 = Some (grid_zeros(vox 3 5 1 1 1 := 1))"
  by (simp add: filter_enclosed_regions_def cluster_two_pockets voxels_def upto_unfold
      convert_tag_def vox_def grid_zeros_def fun_upd_twist)
    (simp add: fun_eq_iff)

lemma cluster_voxel_corner:
  "cluster_voxel 10000 3 3 3 (0, 0, 0)
     \<lparr>glob = \<lparr>grid = corner_and_center, points = 0, big = 0\<rparr>, tag = 1, aux = 0\<rparr> =
   Some \<lparr>glob = \<lparr>grid = corner_and_center, points = 0, big = 0\<rparr>, tag = 2, aux = 0\<rparr>"
  by (simp add: cluster_voxel_def corner_and_center_def vox_def flood_and_fill_unfold big_loop_unfold Let_def)

lemma filter_enclosed_regions_corner:
  "filter_enclosed_regions 10000 corner_and_center 0 3 3 3 = Some (grid_zeros(vox 3 3 0 0 0 := 1))"
  by (simp add: filter_enclosed_regions_def cluster_def voxels_def upto_unfold cluster_voxel_def
      corner_and_center_def vox_def flood_and_fill_unfold big_loop_unfold cube_def Let_def
      convert_tag_def grid_zeros_def fun_upd_twist)
    (simp add: fun_eq_iff)


lemma grid_coords_atom_011: "grid_coords atom_011 (\<lambda>_. 0) sincos_id 1 0 = (0, 1, 1)"
  by (simp add: grid_coords_def atom_011_def sincos_id_def)

lemma floor_ceiling_half: "\<lfloor>- (1 / 2) :: real\<rfloor> = - 1" "\<lceil>1 / 2 :: real\<rceil> = 1"
  by (simp_all add: floor_eq_iff ceiling_eq_iff)

lemma box_atom_011:
  "box 0 1 1 (1 / 2) = Some [(i, j, k). i \<leftarrow> [- 1, 0, 1], j \<leftarrow> [0, 1, 2], k \<leftarrow> [0, 1, 2]]"
  by (simp add: box_def for_values_def int_min_def int_max_def upto_unfold floor_ceiling_half)

text \<open>An atom beyond the range of \<^verbatim>\<open>int\<close>: the loops around it have no value.\<close>

lemma atom_far_undefined: "\<not> atoms_defined atom_far 1 origin sincos_id 1 0"
  by (simp add: atoms_defined_def atom_defined_def origin_def grid_coords_def sincos_id_def
      upto_unfold atom_far_def box_def for_values_def int_min_def int_max_def)

lemma fill_atom_far: "fill g nx ny nz atom_far 1 origin sincos_id 1 0 = None"
  by (simp add: fill_def fill_atom_def origin_def grid_coords_def sincos_id_def
      upto_unfold atom_far_def box_def for_values_def int_min_def int_max_def)

lemma surface_atom_far:
  "surface fuel g points0 sz nx ny nz atom_far 1 origin sincos_id 1 0 is_ses = None"
  by (simp add: surface_def fill_atom_far)

lemma interface_atom_far: "interface g nx ny nz pdb atom_far 1 origin sincos_id 1 0 = None"
  by (rule interface_undefined) (rule atom_far_undefined)

lemma grid_coords_atoms_3:
  "grid_coords atoms_3 (\<lambda>_. 0) sincos_id 1 0 = (1, 1, 1)"
  "grid_coords atoms_3 (\<lambda>_. 0) sincos_id 1 1 = (9, 9, 9)"
  "grid_coords atoms_3 (\<lambda>_. 0) sincos_id 1 2 = (1, 1, 1)"
  by (simp_all add: grid_coords_def atoms_3_def sincos_id_def)

lemma box_atoms_3:
  "box 1 1 1 (1 / 2) = Some [(i, j, k). i \<leftarrow> [0, 1, 2], j \<leftarrow> [0, 1, 2], k \<leftarrow> [0, 1, 2]]"
  "box 9 9 9 (1 / 2) = Some [(i, j, k). i \<leftarrow> [8, 9, 10], j \<leftarrow> [8, 9, 10], k \<leftarrow> [8, 9, 10]]"
  by (simp_all add: box_def for_values_def int_min_def int_max_def upto_unfold)

lemma atoms_3_defined: "atoms_defined atoms_3 3 origin sincos_id 1 0"
  by (simp add: atoms_defined_def atom_defined_def origin_def grid_coords_atoms_3 upto_unfold
      atoms_3_def box_atoms_3)

lemma interface_scan_atoms_3:
  "interface_scan center_surface 3 3 3 atoms_3 3 origin sincos_id 1 0 =
     Some \<lparr>reslist = [0, 2], count = 2, old_atom = 2\<rparr>"
  by (simp add: interface_scan_def interface_atom_def origin_def grid_coords_atoms_3 box_atoms_3
      interface_voxel_def vox_def upto_unfold Let_def atoms_3_def insert_res_def center_surface_def
      grid_zeros_def)

lemma interface_scan_zeros:
  "interface_scan grid_zeros 3 3 3 atoms_3 3 origin sincos_id 1 0 =
     Some \<lparr>reslist = [], count = 0, old_atom = - 1\<rparr>"
  by (simp add: interface_scan_def interface_atom_def origin_def grid_coords_atoms_3 box_atoms_3
      interface_voxel_def vox_def upto_unfold Let_def atoms_3_def insert_res_def grid_zeros_def)

lemma no_touch_zeros:
  "filter (atom_touches grid_zeros 3 3 3 atoms_3 origin sincos_id 1 0) [0..2] = []"
  using interface_scan_filter[OF atoms_3_defined, of grid_zeros 3 3 3]
  by (simp add: interface_scan_zeros)

lemma touch_center_surface:
  "filter (atom_touches center_surface 3 3 3 atoms_3 origin sincos_id 1 0) [0..2] = [0, 2]"
  using interface_scan_filter[OF atoms_3_defined, of center_surface 3 3 3]
  by (simp add: interface_scan_atoms_3)

lemma ses_pass_a_lone_solvent:
  "ses_pass_a lone_solvent 2 2 2 1 2 = lone_solvent"
  by (simp add: ses_pass_a_def voxels_def upto_unfold ses_mark_apply check_protein_neighbours_def
      cube_def inside_def around_def ses_mark_voxel_def lone_solvent_def vox_def Let_def
      sqrt_less_iff_sq)

lemma ses_bulk_column:
  "ses bulk_column 2 2 3 1 2 = bulk_column(vox 2 3 1 1 1 := 1)"
  by (simp add: ses_def ses_promote_def ses_pass_a_def voxels_def upto_unfold ses_mark_apply check_protein_neighbours_def
      cube_def inside_def around_def ses_mark_voxel_def bulk_column_def vox_def Let_def
      sqrt_less_iff_sq)

lemma ses_ses_bulk_column:
  "ses (bulk_column(vox 2 3 1 1 1 := 1)) 2 2 3 1 2 = bulk_column(vox 2 3 1 1 1 := 1, vox 2 3 1 1 2 := 1)"
  by (simp add: ses_def ses_promote_def ses_pass_a_def voxels_def upto_unfold ses_mark_apply check_protein_neighbours_def
      cube_def inside_def around_def ses_mark_voxel_def bulk_column_def vox_def Let_def
      sqrt_less_iff_sq)

subsection \<open>A cluster that exhausts the budget twice\<close>

lemma flood_and_fill_skip':
  "0 < n \<Longrightarrow> on_face nx ny nz v \<or> grid s ((\<lambda>(i, j, k). vox ny nz i j k) v) \<noteq> 1 \<or> big s \<noteq> 0 \<Longrightarrow>
   flood_and_fill n nx ny nz t v s = Some s"
  using flood_and_fill_skip[of nx ny nz v s "n - 1" t] by simp

lemma foldM_around:
  "foldM f pre s = Some s1 \<Longrightarrow> f x s1 = Some s2 \<Longrightarrow> foldM f post s2 = Some s3 \<Longrightarrow>
   foldM f (pre @ x # post) s = Some s3"
  by (simp add: foldM_append)

lemma cube_split:
  "cube 1 2 k0 =
     [(0, 1, k0 - 1), (0, 1, k0), (0, 1, k0 + 1), (0, 2, k0 - 1), (0, 2, k0), (0, 2, k0 + 1),
      (0, 3, k0 - 1), (0, 3, k0), (0, 3, k0 + 1), (1, 1, k0 - 1), (1, 1, k0), (1, 1, k0 + 1)] @
     (1, 2, k0 - 1) #
     [(1, 2, k0), (1, 2, k0 + 1), (1, 3, k0 - 1), (1, 3, k0), (1, 3, k0 + 1),
      (2, 1, k0 - 1), (2, 1, k0), (2, 1, k0 + 1), (2, 2, k0 - 1), (2, 2, k0), (2, 2, k0 + 1),
      (2, 3, k0 - 1), (2, 3, k0), (2, 3, k0 + 1)]"
  by (simp add: cube_def)

lemma flood_down_line:
  assumes "big s = 0" and "points s = 10000 - int m" and "1 \<le> m" and "m \<le> n"
    and "int m \<le> k0" and "k0 \<le> 20001"
    and "\<forall>z. k0 - int m < z \<and> z \<le> k0 \<longrightarrow> grid s (vox 4 20003 1 2 z) = 1"
    and "\<forall>z. 0 \<le> z \<and> z \<le> 20002 \<longrightarrow> grid s (vox 4 20003 1 1 z) \<noteq> 1"
  shows "flood_and_fill n 3 4 20003 t (1, 2, k0) s =
           Some (s\<lparr>grid := paint (grid s) t (vox 4 20003 1 2 (k0 - int m + 1)) (vox 4 20003 1 2 k0),
                   points := 10000, big := 1\<rparr>)"
  using assms
proof (induction m arbitrary: n k0 s)
  case 0
  then show ?case by simp
next
  case (Suc m)
  have n0: "0 < n" using Suc.prems(4) by simp
  have here: "grid s (vox 4 20003 1 2 k0) = 1" using Suc.prems(7) by simp
  have k0: "1 \<le> k0" "k0 \<le> 20001" using Suc.prems(5,6) by simp_all
  let ?s1 = "s\<lparr>grid := (grid s)(vox 4 20003 1 2 k0 := t), points := points s + 1\<rparr>"
  show ?case
  proof (cases "m = 0")
    case True
    then have "points s + 1 = 10000" using Suc.prems(2) by simp
    then have f: "flood_and_fill n 3 4 20003 t (1, 2, k0) s = Some (?s1\<lparr>big := 1\<rparr>)"
      using n0 k0 here Suc.prems(1) by (simp add: flood_and_fill_unfold Let_def)
    have g: "paint (grid s) t (vox 4 20003 1 2 (k0 - int (Suc m) + 1)) (vox 4 20003 1 2 k0) =
                   (grid s)(vox 4 20003 1 2 k0 := t)"
      using True by (auto simp: paint_def fun_eq_iff vox_def)
    have h: "?s1\<lparr>big := 1\<rparr> = s\<lparr>grid := (grid s)(vox 4 20003 1 2 k0 := t), points := 10000, big := 1\<rparr>"
      using \<open>points s + 1 = 10000\<close> by simp
    show ?thesis by (simp only: f g h)
  next
    case False
    then have m: "1 \<le> m" by simp
    have p1: "points ?s1 = 10000 - int m" using Suc.prems(2) by simp
    then have ne: "points ?s1 \<noteq> 10000" using m by simp
    have n1: "0 < n - 1" "m \<le> n - 1" using Suc.prems(4) m by simp_all
    have unfold: "flood_and_fill n 3 4 20003 t (1, 2, k0) s =
                    foldM (flood_and_fill (n - 1) 3 4 20003 t) (cube 1 2 k0) ?s1"
      using n0 k0 here Suc.prems(1) ne m by (simp add: flood_and_fill_unfold Let_def)
    let ?pre = "[(0::int, 1::int, k0 - 1), (0, 1, k0), (0, 1, k0 + 1), (0, 2, k0 - 1), (0, 2, k0), (0, 2, k0 + 1),
      (0, 3, k0 - 1), (0, 3, k0), (0, 3, k0 + 1), (1, 1, k0 - 1), (1, 1, k0), (1, 1, k0 + 1)]"
    let ?post = "[(1::int, 2::int, k0), (1, 2, k0 + 1), (1, 3, k0 - 1), (1, 3, k0), (1, 3, k0 + 1),
      (2, 1, k0 - 1), (2, 1, k0), (2, 1, k0 + 1), (2, 2, k0 - 1), (2, 2, k0), (2, 2, k0 + 1),
      (2, 3, k0 - 1), (2, 3, k0), (2, 3, k0 + 1)]"
    have row1: "grid ?s1 (vox 4 20003 1 1 z) \<noteq> 1" if "0 \<le> z" "z \<le> 20002" for z
    proof -
      have "vox 4 20003 1 1 z \<noteq> vox 4 20003 1 2 k0" using that k0 by (simp add: vox_def)
      then show ?thesis using Suc.prems(8) that by simp
    qed
    have pre: "foldM (flood_and_fill (n - 1) 3 4 20003 t) ?pre ?s1 = Some ?s1"
    proof (rule foldM_id)
      fix v assume "v \<in> set ?pre"
      then have "on_face 3 4 20003 v \<or> grid ?s1 ((\<lambda>(i, j, k). vox 4 20003 i j k) v) \<noteq> 1"
        using row1[of "k0 - 1"] row1[of k0] row1[of "k0 + 1"] k0 by (auto simp: on_face_def)
      then show "flood_and_fill (n - 1) 3 4 20003 t v ?s1 = Some ?s1"
        using flood_and_fill_skip'[OF n1(1)] by blast
    qed
    let ?s2 = "?s1\<lparr>grid := paint (grid ?s1) t (vox 4 20003 1 2 (k0 - 1 - int m + 1)) (vox 4 20003 1 2 (k0 - 1)),
                     points := 10000, big := 1\<rparr>"
    have line: "\<forall>z. k0 - 1 - int m < z \<and> z \<le> k0 - 1 \<longrightarrow> grid ?s1 (vox 4 20003 1 2 z) = 1"
      using Suc.prems(7) by (auto simp: vox_def)
    have rec: "flood_and_fill (n - 1) 3 4 20003 t (1, 2, k0 - 1) ?s1 = Some ?s2"
      by (rule Suc.IH) (use Suc.prems(1,5,6) p1 m n1 line row1 in auto)
    have post: "foldM (flood_and_fill (n - 1) 3 4 20003 t) ?post ?s2 = Some ?s2"
    proof (rule foldM_id)
      fix v
      show "flood_and_fill (n - 1) 3 4 20003 t v ?s2 = Some ?s2"
        by (rule flood_and_fill_skip'[OF n1(1)]) simp
    qed
    have "flood_and_fill n 3 4 20003 t (1, 2, k0) s = Some ?s2"
      unfolding unfold cube_split by (rule foldM_around[OF pre rec post])
    moreover have "paint (grid ?s1) t (vox 4 20003 1 2 (k0 - 1 - int m + 1)) (vox 4 20003 1 2 (k0 - 1)) =
                   paint (grid s) t (vox 4 20003 1 2 (k0 - int (Suc m) + 1)) (vox 4 20003 1 2 k0)"
      by (auto simp: paint_def fun_eq_iff vox_def)
    ultimately show ?thesis by simp
  qed
qed

lemma cube_split_start:
  "cube 1 1 k0 =
     [(0, 0, k0 - 1), (0, 0, k0), (0, 0, k0 + 1), (0, 1, k0 - 1), (0, 1, k0), (0, 1, k0 + 1),
      (0, 2, k0 - 1), (0, 2, k0), (0, 2, k0 + 1), (1, 0, k0 - 1), (1, 0, k0), (1, 0, k0 + 1),
      (1, 1, k0 - 1), (1, 1, k0), (1, 1, k0 + 1)] @
     (1, 2, k0 - 1) #
     [(1, 2, k0), (1, 2, k0 + 1),
      (2, 0, k0 - 1), (2, 0, k0), (2, 0, k0 + 1), (2, 1, k0 - 1), (2, 1, k0), (2, 1, k0 + 1),
      (2, 2, k0 - 1), (2, 2, k0), (2, 2, k0 + 1)]"
  by (simp add: cube_def)

lemma first_flood:
  "flood_and_fill 10000 3 4 20003 2 (1, 1, 20001) \<lparr>grid = snake, points = 0, big = 0\<rparr> =
     Some \<lparr>grid = snake_first, points = 10000, big = 1\<rparr>"
proof -
  let ?s1 = "\<lparr>grid = snake(vox 4 20003 1 1 20001 := 2), points = 1, big = 0\<rparr>"
  have unfold: "flood_and_fill 10000 3 4 20003 2 (1, 1, 20001) \<lparr>grid = snake, points = 0, big = 0\<rparr> =
                  foldM (flood_and_fill 9999 3 4 20003 2) (cube 1 1 20001) ?s1"
    by (simp add: flood_and_fill_unfold Let_def snake_def)
  let ?pre = "[(0::int, 0::int, 20001 - 1), (0, 0, 20001), (0, 0, 20001 + 1), (0, 1, 20001 - 1), (0, 1, 20001), (0, 1, 20001 + 1),
      (0, 2, 20001 - 1), (0, 2, 20001), (0, 2, 20001 + 1), (1, 0, 20001 - 1), (1, 0, 20001), (1, 0, 20001 + 1),
      (1, 1, 20001 - 1), (1, 1, 20001), (1, 1, 20001 + 1::int)]"
  let ?post = "[(1::int, 2::int, 20001::int), (1, 2, 20001 + 1),
      (2, 0, 20001 - 1), (2, 0, 20001), (2, 0, 20001 + 1), (2, 1, 20001 - 1), (2, 1, 20001), (2, 1, 20001 + 1),
      (2, 2, 20001 - 1), (2, 2, 20001), (2, 2, 20001 + 1)]"
  have pre: "foldM (flood_and_fill 9999 3 4 20003 2) ?pre ?s1 = Some ?s1"
  proof (rule foldM_id)
    fix v assume "v \<in> set ?pre"
    then have "on_face 3 4 20003 v \<or> grid ?s1 ((\<lambda>(i, j, k). vox 4 20003 i j k) v) \<noteq> 1"
      by (auto simp: on_face_def snake_def vox_def)
    moreover have "0 < (9999::nat)" by simp
    ultimately show "flood_and_fill 9999 3 4 20003 2 v ?s1 = Some ?s1"
      using flood_and_fill_skip'[of 9999 3 4 20003 v ?s1 2] by blast
  qed
  let ?s2 = "?s1\<lparr>grid := paint (grid ?s1) 2 (vox 4 20003 1 2 (20000 - int 9999 + 1)) (vox 4 20003 1 2 20000),
                   points := 10000, big := 1\<rparr>"
  have rec: "flood_and_fill 9999 3 4 20003 2 (1, 2, 20001 - 1) ?s1 = Some ?s2"
  proof -
    have "flood_and_fill 9999 3 4 20003 2 (1, 2, 20000) ?s1 = Some ?s2"
    proof (rule flood_down_line)
      show "\<forall>z. 20000 - int 9999 < z \<and> z \<le> 20000 \<longrightarrow> grid ?s1 (vox 4 20003 1 2 z) = 1"
        by (auto simp: snake_def vox_def)
      show "\<forall>z. 0 \<le> z \<and> z \<le> 20002 \<longrightarrow> grid ?s1 (vox 4 20003 1 1 z) \<noteq> 1"
        by (auto simp: snake_def vox_def)
    qed simp_all
    then show ?thesis by simp
  qed
  have post: "foldM (flood_and_fill 9999 3 4 20003 2) ?post ?s2 = Some ?s2"
  proof (rule foldM_id)
    fix v
    show "flood_and_fill 9999 3 4 20003 2 v ?s2 = Some ?s2"
      by (rule flood_and_fill_skip') simp_all
  qed
  have "flood_and_fill 10000 3 4 20003 2 (1, 1, 20001) \<lparr>grid = snake, points = 0, big = 0\<rparr> = Some ?s2"
    unfolding unfold cube_split_start by (rule foldM_around[OF pre rec post])
  moreover have "paint (grid ?s1) 2 (vox 4 20003 1 2 (20000 - int 9999 + 1)) (vox 4 20003 1 2 20000) = snake_first"
    by (auto simp: paint_def fun_eq_iff vox_def snake_def snake_first_def)
  ultimately show ?thesis by simp
qed

lemma second_flood:
  "flood_and_fill 10000 3 4 20003 2 (1, 2, 10001) \<lparr>grid = snake_first, points = 0, big = 0\<rparr> =
     Some \<lparr>grid = snake_clustered, points = 10000, big = 1\<rparr>"
proof -
  let ?s = "\<lparr>grid = snake_first, points = 0, big = 0\<rparr>"
  have "flood_and_fill 10000 3 4 20003 2 (1, 2, 10001) ?s =
          Some (?s\<lparr>grid := paint (grid ?s) 2 (vox 4 20003 1 2 (10001 - int 10000 + 1)) (vox 4 20003 1 2 10001),
                   points := 10000, big := 1\<rparr>)"
  proof (rule flood_down_line)
    show "\<forall>z. 10001 - int 10000 < z \<and> z \<le> 10001 \<longrightarrow> grid ?s (vox 4 20003 1 2 z) = 1"
      by (auto simp: snake_first_def vox_def)
    show "\<forall>z. 0 \<le> z \<and> z \<le> 20002 \<longrightarrow> grid ?s (vox 4 20003 1 1 z) \<noteq> 1"
      by (auto simp: snake_first_def vox_def)
  qed simp_all
  moreover have "paint (grid ?s) 2 (vox 4 20003 1 2 (10001 - int 10000 + 1)) (vox 4 20003 1 2 10001) = snake_clustered"
    by (auto simp: paint_def fun_eq_iff vox_def snake_first_def snake_clustered_def)
  ultimately show ?thesis by simp
qed

lemma nest3_split:
  "concat (map (\<lambda>i. concat (map (\<lambda>j. map (\<lambda>k. (i, j, k)) (C1 @ c # C2)) (B1 @ b # B2))) (A1 @ a # A2)) =
   (concat (map (\<lambda>i. concat (map (\<lambda>j. map (\<lambda>k. (i, j, k)) (C1 @ c # C2)) (B1 @ b # B2))) A1) @
    concat (map (\<lambda>j. map (\<lambda>k. (a, j, k)) (C1 @ c # C2)) B1) @ map (\<lambda>k. (a, b, k)) C1) @
   (a, b, c) #
   (map (\<lambda>k. (a, b, k)) C2 @ concat (map (\<lambda>j. map (\<lambda>k. (a, j, k)) (C1 @ c # C2)) B2) @
    concat (map (\<lambda>i. concat (map (\<lambda>j. map (\<lambda>k. (i, j, k)) (C1 @ c # C2)) (B1 @ b # B2))) A2))"
  by simp

lemma voxels_split:
  assumes "0 \<le> a" "a < nx" "0 \<le> b" "b < ny" "0 \<le> c" "c < nz"
  shows "\<exists>vs1 vs2. voxels nx ny nz = vs1 @ (a, b, c) # vs2 \<and>
           (\<forall>v \<in> set vs1. v \<in> set (voxels nx ny nz) \<and> scanned_before v (a, b, c)) \<and>
           (\<forall>v \<in> set vs2. v \<in> set (voxels nx ny nz) \<and> scanned_before (a, b, c) v)"
proof -
  have A: "[0..nx - 1] = [0..a - 1] @ a # [a + 1..nx - 1]" using assms by (intro upto_split3) auto
  have B: "[0..ny - 1] = [0..b - 1] @ b # [b + 1..ny - 1]" using assms by (intro upto_split3) auto
  have C: "[0..nz - 1] = [0..c - 1] @ c # [c + 1..nz - 1]" using assms by (intro upto_split3) auto
  let ?F = "\<lambda>i. concat (map (\<lambda>j. map (\<lambda>k. (i, j, k)) ([0..c - 1] @ c # [c + 1..nz - 1])) ([0..b - 1] @ b # [b + 1..ny - 1]))"
  let ?G = "\<lambda>j. map (\<lambda>k. (a, j, k)) ([0..c - 1] @ c # [c + 1..nz - 1])"
  let ?vs1 = "concat (map ?F [0..a - 1]) @ concat (map ?G [0..b - 1]) @ map (\<lambda>k. (a, b, k)) [0..c - 1]"
  let ?vs2 = "map (\<lambda>k. (a, b, k)) [c + 1..nz - 1] @ concat (map ?G [b + 1..ny - 1]) @ concat (map ?F [a + 1..nx - 1])"
  have eq: "voxels nx ny nz = ?vs1 @ (a, b, c) # ?vs2"
    unfolding voxels_def by (subst A, subst B, subst C) (rule nest3_split)
  have s1: "\<forall>v \<in> set ?vs1. v \<in> set (voxels nx ny nz) \<and> scanned_before v (a, b, c)"
    using assms unfolding C[symmetric] B[symmetric] by (auto simp: set_voxels scanned_before_def)
  have s2: "\<forall>v \<in> set ?vs2. v \<in> set (voxels nx ny nz) \<and> scanned_before (a, b, c) v"
    using assms unfolding C[symmetric] B[symmetric] by (auto simp: set_voxels scanned_before_def)
  show ?thesis using eq s1 s2 by blast
qed

lemma rescan_voxel_skip:
  assumes "\<not> (grid (glob p) ((\<lambda>(i, j, k). vox ny nz i j k) v) = 1 \<and>
              (\<lambda>(i, j, k). check_unclustered_neighbours (grid (glob p)) nx ny nz i j k) v = tag p)"
  shows "rescan_voxel fuel nx ny nz v p =
           Some (p\<lparr>glob := (glob p)\<lparr>big := 0, points := 0\<rparr>, aux := aux p + points (glob p)\<rparr>)"
  using assms by (cases v) (auto simp: rescan_voxel_def Let_def)

lemma foldM_rescan_skip:
  assumes "\<forall>v \<in> set (v0 # vs). \<not> (grid (glob p) ((\<lambda>(i, j, k). vox ny nz i j k) v) = 1 \<and>
              (\<lambda>(i, j, k). check_unclustered_neighbours (grid (glob p)) nx ny nz i j k) v = tag p)"
  shows "foldM (rescan_voxel fuel nx ny nz) (v0 # vs) p =
           Some (p\<lparr>glob := (glob p)\<lparr>big := 0, points := 0\<rparr>, aux := aux p + points (glob p)\<rparr>)"
  using assms
proof (induction vs arbitrary: v0 p)
  case Nil
  then show ?case by (simp add: rescan_voxel_skip)
next
  case (Cons v1 vs)
  let ?p1 = "p\<lparr>glob := (glob p)\<lparr>big := 0, points := 0\<rparr>, aux := aux p + points (glob p)\<rparr>"
  have 1: "rescan_voxel fuel nx ny nz v0 p = Some ?p1"
    using Cons.prems by (intro rescan_voxel_skip) simp
  have "foldM (rescan_voxel fuel nx ny nz) (v1 # vs) ?p1 =
          Some (?p1\<lparr>glob := (glob ?p1)\<lparr>big := 0, points := 0\<rparr>, aux := aux ?p1 + points (glob ?p1)\<rparr>)"
    using Cons.prems by (intro Cons.IH) simp
  then show ?case using 1 by simp
qed

lemma snake_first_one:
  assumes "(i, j, k) \<in> set (voxels 3 4 20003)" and "snake_first (vox 4 20003 i j k) = 1"
  shows "i = 1 \<and> j = 2 \<and> 1 \<le> k \<and> k \<le> 10001"
proof -
  have r: "0 \<le> i" "i < 3" "0 \<le> j" "j < 4" "0 \<le> k" "k < 20003"
    using assms(1) by (simp_all add: set_voxels)
  have a: "120019 \<le> k + 20003 * (j + 4 * i)" "k + 20003 * (j + 4 * i) \<le> 130019"
    using assms(2) by (simp_all add: snake_first_def vox_def split: if_splits)
  have c: "j + 4 * i = 6" using r a by (simp add: algebra_simps)
  then have i: "i = 1" using r by linarith
  then have "j = 2" using c by linarith
  then show ?thesis using a i by simp
qed

lemma snake_clustered_one:
  assumes "(i, j, k) \<in> set (voxels 3 4 20003)" and "snake_clustered (vox 4 20003 i j k) = 1"
  shows "i = 1 \<and> j = 2 \<and> k = 1"
proof -
  have r: "0 \<le> i" "i < 3" "0 \<le> j" "j < 4" "0 \<le> k" "k < 20003"
    using assms(1) by (simp_all add: set_voxels)
  have a: "k + 20003 * (j + 4 * i) = 120019"
    using assms(2) by (simp add: snake_clustered_def vox_def split: if_splits)
  have c: "j + 4 * i = 6" using r a by (simp add: algebra_simps)
  then have i: "i = 1" using r by linarith
  then have "j = 2" using c by linarith
  then show ?thesis using a i by simp
qed

lemma check_snake_first_none:
  assumes "1 \<le> k" "k \<le> 10000"
  shows "check_unclustered_neighbours snake_first 3 4 20003 1 2 k = 0"
proof -
  have "find (\<lambda>(x, y, z). inside 3 4 20003 x y z \<and> snake_first (vox 4 20003 x y z) > 1) (cube 1 2 k) = None"
    unfolding find_None_iff cube_split using assms
    by (auto simp: inside_def snake_first_def vox_def)
  then show ?thesis by (simp add: check_unclustered_neighbours_def)
qed

lemma check_snake_first_hit:
  "check_unclustered_neighbours snake_first 3 4 20003 1 2 10001 = 2"
  by (simp add: check_unclustered_neighbours_def cube_def inside_def snake_first_def vox_def)

lemma rescan_snake:
  "foldM (rescan_voxel 10000 3 4 20003) (voxels 3 4 20003)
     \<lparr>glob = \<lparr>grid = snake_first, points = 10000, big = 1\<rparr>, tag = 2, aux = 0\<rparr> =
   Some \<lparr>glob = \<lparr>grid = snake_clustered, points = 0, big = 0\<rparr>, tag = 2, aux = 20000\<rparr>"
proof -
  let ?p0 = "\<lparr>glob = \<lparr>grid = snake_first, points = 10000, big = 1\<rparr>, tag = 2, aux = 0\<rparr>"
  let ?p1 = "\<lparr>glob = \<lparr>grid = snake_first, points = 0, big = 0\<rparr>, tag = 2, aux = 10000\<rparr>"
  let ?p2 = "\<lparr>glob = \<lparr>grid = snake_clustered, points = 10000, big = 1\<rparr>, tag = 2, aux = 10000\<rparr>"
  let ?p3 = "\<lparr>glob = \<lparr>grid = snake_clustered, points = 0, big = 0\<rparr>, tag = 2, aux = 20000\<rparr>"
  obtain vs1 vs2 where vs: "voxels 3 4 20003 = vs1 @ (1, 2, 10001) # vs2"
    and b: "\<forall>v \<in> set vs1. v \<in> set (voxels 3 4 20003) \<and> scanned_before v (1, 2, 10001)"
    and a: "\<forall>v \<in> set vs2. v \<in> set (voxels 3 4 20003) \<and> scanned_before (1, 2, 10001) v"
    using voxels_split[of 1 3 2 4 10001 20003] by auto
  have "(0, 0, 0) \<in> set (voxels 3 4 20003)" by (simp add: set_voxels)
  then have "(0, 0, 0) \<in> set vs1" using a unfolding vs by (auto simp: scanned_before_def)
  then obtain v1 vs1' where vs1: "vs1 = v1 # vs1'" by (cases vs1) auto
  have "(2, 3, 20002) \<in> set (voxels 3 4 20003)" by (simp add: set_voxels)
  then have "(2, 3, 20002) \<in> set vs2" using b unfolding vs by (auto simp: scanned_before_def)
  then obtain v2 vs2' where vs2: "vs2 = v2 # vs2'" by (cases vs2) auto
  have skip1: "\<not> (grid (glob ?p0) ((\<lambda>(i, j, k). vox 4 20003 i j k) v) = 1 \<and>
              (\<lambda>(i, j, k). check_unclustered_neighbours (grid (glob ?p0)) 3 4 20003 i j k) v = tag ?p0)"
    if "v \<in> set vs1" for v
  proof -
    obtain i j k where v: "v = (i, j, k)" by (cases v)
    have r: "(i, j, k) \<in> set (voxels 3 4 20003)" "scanned_before (i, j, k) (1, 2, 10001)"
      using b that v by auto
    show ?thesis
    proof (cases "snake_first (vox 4 20003 i j k) = 1")
      case True
      from snake_first_one[OF r(1) True] r(2) have "i = 1" "j = 2" "1 \<le> k" "k \<le> 10000"
        by (auto simp: scanned_before_def)
      then show ?thesis using check_snake_first_none[of k] by (simp add: v)
    next
      case False
      then show ?thesis by (simp add: v)
    qed
  qed
  have f1: "foldM (rescan_voxel 10000 3 4 20003) vs1 ?p0 = Some ?p1"
    unfolding vs1 using foldM_rescan_skip[of v1 vs1' ?p0 4 20003 3 10000] skip1 by (simp add: vs1)
  have f2: "rescan_voxel 10000 3 4 20003 (1, 2, 10001) ?p1 = Some ?p2"
    by (simp add: rescan_voxel_def Let_def check_snake_first_hit second_flood)
      (simp add: snake_first_def vox_def)
  have skip2: "\<not> (grid (glob ?p2) ((\<lambda>(i, j, k). vox 4 20003 i j k) v) = 1 \<and>
              (\<lambda>(i, j, k). check_unclustered_neighbours (grid (glob ?p2)) 3 4 20003 i j k) v = tag ?p2)"
    if "v \<in> set vs2" for v
  proof -
    obtain i j k where v: "v = (i, j, k)" by (cases v)
    have r: "(i, j, k) \<in> set (voxels 3 4 20003)" "scanned_before (1, 2, 10001) (i, j, k)"
      using a that v by auto
    have "snake_clustered (vox 4 20003 i j k) \<noteq> 1"
      using snake_clustered_one[OF r(1)] r(2) by (auto simp: scanned_before_def)
    then show ?thesis by (simp add: v)
  qed
  have f3: "foldM (rescan_voxel 10000 3 4 20003) vs2 ?p2 = Some ?p3"
    unfolding vs2 using foldM_rescan_skip[of v2 vs2' ?p2 4 20003 3 10000] skip2 by (simp add: vs2)
  show ?thesis unfolding vs by (rule foldM_around[OF f1 f2 f3])
qed

lemma cluster_voxel_snake:
  "cluster_voxel 10000 3 4 20003 (1, 1, 20001)
     \<lparr>glob = \<lparr>grid = snake, points = 0, big = 0\<rparr>, tag = 1, aux = 0\<rparr> =
   Some \<lparr>glob = \<lparr>grid = snake_clustered, points = 20000, big = 0\<rparr>, tag = 2, aux = 20000\<rparr>"
proof -
  have s: "snake (vox 4 20003 1 1 20001) = 1" by (simp add: snake_def)
  have loop: "big_loop 10000 10000 3 4 20003
                \<lparr>glob = \<lparr>grid = snake_first, points = 10000, big = 1\<rparr>, tag = 2, aux = 10000\<rparr> =
              Some \<lparr>glob = \<lparr>grid = snake_clustered, points = 0, big = 0\<rparr>, tag = 2, aux = 20000\<rparr>"
    by (simp add: big_loop_unfold rescan_snake)
  show ?thesis
    by (simp add: cluster_voxel_def s Let_def first_flood loop)
qed

lemma cluster_voxel_skip:
  "grid (glob p) ((\<lambda>(i, j, k). vox ny nz i j k) v) \<noteq> 1 \<Longrightarrow> cluster_voxel fuel nx ny nz v p = Some p"
  by (cases v) (simp add: cluster_voxel_def)

lemma snake_one:
  assumes "(i, j, k) \<in> set (voxels 3 4 20003)" and "snake (vox 4 20003 i j k) = 1"
  shows "i = 1 \<and> (j = 1 \<and> k = 20001 \<or> j = 2)"
proof -
  have r: "0 \<le> i" "i < 3" "0 \<le> j" "j < 4" "0 \<le> k" "k < 20003"
    using assms(1) by (simp_all add: set_voxels)
  have "k + 20003 * (j + 4 * i) = 120016 \<or>
        (120019 \<le> k + 20003 * (j + 4 * i) \<and> k + 20003 * (j + 4 * i) \<le> 140018)"
    using assms(2) by (simp add: snake_def vox_def split: if_splits)
  then show ?thesis
  proof
    assume a: "k + 20003 * (j + 4 * i) = 120016"
    have c: "j + 4 * i = 5" using r a by (simp add: algebra_simps)
    then have i: "i = 1" using r by linarith
    then have "j = 1" using c by linarith
    then show ?thesis using a i by simp
  next
    assume a: "120019 \<le> k + 20003 * (j + 4 * i) \<and> k + 20003 * (j + 4 * i) \<le> 140018"
    have c: "j + 4 * i = 6" using r a by (simp add: algebra_simps)
    then have i: "i = 1" using r by linarith
    then have "j = 2" using c by linarith
    then show ?thesis using i by simp
  qed
qed

lemma third_flood:
  "flood_and_fill 10000 3 4 20003 3 (1, 2, 1) \<lparr>grid = snake_clustered, points = 0, big = 0\<rparr> =
     Some \<lparr>grid = snake_clustered(vox 4 20003 1 2 1 := 3), points = 1, big = 0\<rparr>"
proof -
  let ?s1 = "\<lparr>grid = snake_clustered(vox 4 20003 1 2 1 := 3), points = 1, big = 0\<rparr>"
  have "foldM (flood_and_fill 9999 3 4 20003 3) (cube 1 2 1) ?s1 = Some ?s1"
  proof (rule foldM_id)
    fix v :: "int \<times> int \<times> int"
    have "grid ?s1 ((\<lambda>(i, j, k). vox 4 20003 i j k) v) \<noteq> 1"
      by (simp add: snake_clustered_def)
    then show "flood_and_fill 9999 3 4 20003 3 v ?s1 = Some ?s1"
      using flood_and_fill_skip'[of 9999 3 4 20003 v ?s1 3] by simp
  qed
  moreover have "snake_clustered (vox 4 20003 1 2 1) = 1"
    by (simp add: snake_clustered_def vox_def)
  ultimately show ?thesis
    by (simp add: flood_and_fill_unfold Let_def)
qed

lemma cluster_snake:
  "cluster 10000 snake 0 3 4 20003 =
     Some \<lparr>glob = \<lparr>grid = snake_clustered(vox 4 20003 1 2 1 := 3), points = 1, big = 0\<rparr>,
           tag = 3, aux = 1\<rparr>"
proof -
  let ?p0 = "\<lparr>glob = \<lparr>grid = snake, points = 0, big = 0\<rparr>, tag = 1, aux = 0\<rparr>"
  let ?p2 = "\<lparr>glob = \<lparr>grid = snake_clustered, points = 20000, big = 0\<rparr>, tag = 2, aux = 20000\<rparr>"
  let ?p3 = "\<lparr>glob = \<lparr>grid = snake_clustered(vox 4 20003 1 2 1 := 3), points = 1, big = 0\<rparr>,
             tag = 3, aux = 1\<rparr>"
  obtain vs1 vs2 where vs: "voxels 3 4 20003 = vs1 @ (1, 1, 20001) # vs2"
    and b: "\<forall>v \<in> set vs1. v \<in> set (voxels 3 4 20003) \<and> scanned_before v (1, 1, 20001)"
    and a: "\<forall>v \<in> set vs2. v \<in> set (voxels 3 4 20003) \<and> scanned_before (1, 1, 20001) v"
    using voxels_split[of 1 3 1 4 20001 20003] by auto
  have "(1, 2, 1) \<in> set (voxels 3 4 20003)" by (simp add: set_voxels)
  then have "(1, 2, 1) \<in> set vs2" using b unfolding vs by (auto simp: scanned_before_def)
  then obtain ys zs where vs2: "vs2 = ys @ (1, 2, 1) # zs" and ys: "(1, 2, 1) \<notin> set ys"
    using split_list_first by fastforce
  have f1: "foldM (cluster_voxel 10000 3 4 20003) vs1 ?p0 = Some ?p0"
  proof (rule foldM_id)
    fix v assume v: "v \<in> set vs1"
    obtain i j k where ijk: "v = (i, j, k)" by (cases v)
    have "snake (vox 4 20003 i j k) \<noteq> 1"
      using snake_one[of i j k] b v by (auto simp: ijk scanned_before_def)
    then show "cluster_voxel 10000 3 4 20003 v ?p0 = Some ?p0"
      by (intro cluster_voxel_skip) (simp add: ijk)
  qed
  have f2: "foldM (cluster_voxel 10000 3 4 20003) ys ?p2 = Some ?p2"
  proof (rule foldM_id)
    fix v assume v: "v \<in> set ys"
    obtain i j k where ijk: "v = (i, j, k)" by (cases v)
    have "(i, j, k) \<in> set (voxels 3 4 20003)" using a v by (auto simp: vs2 ijk)
    then have "snake_clustered (vox 4 20003 i j k) \<noteq> 1"
      using snake_clustered_one[of i j k] ys v by (auto simp: ijk)
    then show "cluster_voxel 10000 3 4 20003 v ?p2 = Some ?p2"
      by (intro cluster_voxel_skip) (simp add: ijk)
  qed
  have one: "snake_clustered (vox 4 20003 1 2 1) = 1"
    by (simp add: snake_clustered_def vox_def)
  have f3: "cluster_voxel 10000 3 4 20003 (1, 2, 1) ?p2 = Some ?p3"
    by (simp add: cluster_voxel_def one Let_def third_flood big_loop_unfold)
  have f4: "foldM (cluster_voxel 10000 3 4 20003) zs ?p3 = Some ?p3"
  proof (rule foldM_id)
    fix v :: "int \<times> int \<times> int"
    show "cluster_voxel 10000 3 4 20003 v ?p3 = Some ?p3"
      by (intro cluster_voxel_skip) (simp add: snake_clustered_def)
  qed
  have "foldM (cluster_voxel 10000 3 4 20003) vs2 ?p2 = Some ?p3"
    unfolding vs2 by (rule foldM_around[OF f2 f3 f4])
  with foldM_around[OF f1 cluster_voxel_snake] show ?thesis
    unfolding cluster_def vs by simp
qed

lemma filter_enclosed_regions_snake:
  "filter_enclosed_regions 10000 snake 0 3 4 20003 = Some snake_pruned"
proof -
  let ?g = "snake_clustered(vox 4 20003 1 2 1 := 3)"
  have "fold (convert_tag 4 20003) (voxels 3 4 20003) ?g a = snake_pruned a" for a
  proof (cases "?g a = 0")
    case True
    then have "snake_pruned a = 0"
      by (auto simp: snake_pruned_def snake_clustered_def vox_def split: if_splits)
    then show ?thesis using True by (simp add: fold_convert_tag converted_def)
  next
    case False
    then have r: "a = vox 4 20003 1 1 20001 \<or> (vox 4 20003 1 2 1 \<le> a \<and> a \<le> vox 4 20003 1 2 20000)"
      by (auto simp: snake_clustered_def vox_def split: if_splits)
    then have "a = vox 4 20003 1 1 20001 \<or> a = vox 4 20003 1 2 (a - 120018) \<and> 1 \<le> a - 120018 \<and> a - 120018 \<le> 20000"
      by (auto simp: vox_def)
    then have "a \<in> (\<lambda>(i, j, k). vox 4 20003 i j k) ` set (voxels 3 4 20003)"
    proof
      assume "a = vox 4 20003 1 1 20001"
      moreover have "(1, 1, 20001) \<in> set (voxels 3 4 20003)" by (simp add: set_voxels)
      ultimately show ?thesis by force
    next
      assume h: "a = vox 4 20003 1 2 (a - 120018) \<and> 1 \<le> a - 120018 \<and> a - 120018 \<le> 20000"
      then have "(1, 2, a - 120018) \<in> set (voxels 3 4 20003)" by (simp add: set_voxels)
      then show ?thesis using h by force
    qed
    then have "fold (convert_tag 4 20003) (voxels 3 4 20003) ?g a = converted (?g a)"
      by (simp add: fold_convert_tag)
    also have "\<dots> = snake_pruned a"
      using r by (auto simp: converted_def snake_pruned_def snake_clustered_def vox_def)
    finally show ?thesis .
  qed
  then have "fold (convert_tag 4 20003) (voxels 3 4 20003) ?g = snake_pruned"
    by (simp add: fun_eq_iff)
  then show ?thesis
    by (simp add: filter_enclosed_regions_def cluster_snake)
qed

subsection \<open>Claims on the atom to surface mapper\<close>

text \<open>
  Claim C5. Wherever the loops around the atoms have a value, \<^verbatim>\<open>_interface\<close> returns the
  array that holds the residue \<open>pdb[a]\<close> of each atom \<open>a\<close> of its linked list, in the order
  of the list, and then \<^verbatim>\<open>NULL\<close>. The atom indices of the list are strictly increasing:
  no atom appears twice, and the atoms that appear are the atoms \<open>0 \<le> a < natoms\<close> for
  which a voxel passed the tests, so each of them has exactly one entry.
\<close>

theorem interface_atoms_strictly_increasing:
  assumes "atoms_defined atoms natoms reference sincos step probe"
  shows "\<exists>r. interface_scan g nx ny nz atoms natoms reference sincos step probe = Some r \<and>
           interface g nx ny nz pdb atoms natoms reference sincos step probe =
             Some (map pdb (reslist r) @ [None]) \<and>
           sorted_wrt (<) (reslist r) \<and>
           distinct (reslist r) \<and>
           set (reslist r) =
             {a. 0 \<le> a \<and> a < natoms \<and> atom_touches g nx ny nz atoms reference sincos step probe a}"
proof -
  from interface_residues[OF assms, of g nx ny nz pdb] obtain r where
    r: "interface_scan g nx ny nz atoms natoms reference sincos step probe = Some r"
    "reslist r = filter (atom_touches g nx ny nz atoms reference sincos step probe) [0..natoms - 1]"
    "interface g nx ny nz pdb atoms natoms reference sincos step probe =
       Some (map pdb (reslist r) @ [None])"
    by blast
  have "sorted_wrt (<) (reslist r)"
    unfolding r(2) by (rule sorted_wrt_filter) (rule sorted_wrt_upto)
  moreover have "distinct (reslist r)"
    unfolding r(2) by simp
  moreover have "set (reslist r) =
      {a. 0 \<le> a \<and> a < natoms \<and> atom_touches g nx ny nz atoms reference sincos step probe a}"
    unfolding r(2) by auto
  ultimately show ?thesis using r(1,3) by blast
qed

theorem interface_atoms_strictly_increasing_witness:
  "atoms_defined atoms_3 3 origin sincos_id 1 0 \<and>
   interface_scan center_surface 3 3 3 atoms_3 3 origin sincos_id 1 0 =
     Some \<lparr>reslist = [0, 2], count = 2, old_atom = 2\<rparr> \<and>
   interface center_surface 3 3 3 pdb_3 atoms_3 3 origin sincos_id 1 0 =
     Some [Some ''10_A'', Some ''12_A'', None]"
  using interface_atoms_strictly_increasing[OF atoms_3_defined, of center_surface 3 3 3 pdb_3]
  by (auto simp: interface_scan_atoms_3 atoms_3_defined pdb_3_def)

text \<open>
  Claim C10. \<^verbatim>\<open>_interface\<close> returns an array exactly when the loops around the atoms have a
  value. The array holds the residue of each touching atom and then \<^verbatim>\<open>NULL\<close>: it has one
  slot more than there are touching atoms, its last slot is \<^verbatim>\<open>NULL\<close>, and its first slot
  is \<^verbatim>\<open>NULL\<close> when no atom touches the surface.
\<close>

theorem interface_null_terminated:
  "interface g nx ny nz pdb atoms natoms reference sincos step probe =
     (if atoms_defined atoms natoms reference sincos step probe
      then Some (map pdb (filter (atom_touches g nx ny nz atoms reference sincos step probe) [0..natoms - 1]) @
                 [None])
      else None) \<and>
   (\<forall>residues. interface g nx ny nz pdb atoms natoms reference sincos step probe = Some residues \<longrightarrow>
      length residues =
        length (filter (atom_touches g nx ny nz atoms reference sincos step probe) [0..natoms - 1]) + 1 \<and>
      last residues = None \<and>
      (filter (atom_touches g nx ny nz atoms reference sincos step probe) [0..natoms - 1] = [] \<longrightarrow>
         residues ! 0 = None))"
proof (cases "atoms_defined atoms natoms reference sincos step probe")
  case True
  from interface_residues[OF True, of g nx ny nz pdb]
  have "interface g nx ny nz pdb atoms natoms reference sincos step probe =
          Some (map pdb (filter (atom_touches g nx ny nz atoms reference sincos step probe) [0..natoms - 1]) @
                [None])"
    by auto
  then show ?thesis using True by simp
next
  case False
  then show ?thesis by (simp add: interface_undefined)
qed

theorem interface_null_terminated_witness:
  "atoms_defined atoms_3 3 origin sincos_id 1 0 \<and>
   filter (atom_touches grid_zeros 3 3 3 atoms_3 origin sincos_id 1 0) [0..2] = [] \<and>
   interface grid_zeros 3 3 3 pdb_3 atoms_3 3 origin sincos_id 1 0 = Some [None] \<and>
   filter (atom_touches center_surface 3 3 3 atoms_3 origin sincos_id 1 0) [0..2] = [0, 2] \<and>
   interface center_surface 3 3 3 pdb_3 atoms_3 3 origin sincos_id 1 0 =
     Some [Some ''10_A'', Some ''12_A'', None]"
  using interface_null_terminated[of grid_zeros 3 3 3 pdb_3 atoms_3 3 origin sincos_id 1 0]
    interface_null_terminated[of center_surface 3 3 3 pdb_3 atoms_3 3 origin sincos_id 1 0]
  by (simp add: no_touch_zeros touch_center_surface atoms_3_defined pdb_3_def)

text \<open>
  Claim C4 asks \<^verbatim>\<open>_interface\<close> to include an atom exactly when a voxel within
  \<open>[0, nx) \<times> [0, ny) \<times> [0, nz)\<close> has tag \<open>1\<close> and lies within \<open>H\<close> of the center, voxels
  with an index \<open>0\<close> included. The test of line 710 is \<^verbatim>\<open>i > 0 && j > 0 && k > 0\<close>, where
  \<^verbatim>\<open>fill\<close> (line 96) tests \<^verbatim>\<open>i >= 0 && j >= 0 && k >= 0\<close> over the same box. On the
  \<open>2 \<times> 2 \<times> 2\<close> grid whose only voxel of tag \<open>1\<close> is \<open>(0, 1, 1)\<close>, the center of the one
  atom, the atom touches the surface in the specification's words and the array
  returned holds \<^verbatim>\<open>NULL\<close> alone.
\<close>

theorem interface_skips_index_zero:
  "touches_within_grid ((\<lambda>_. 0)(vox 2 2 0 1 1 := 1)) 2 2 2 atom_011 (\<lambda>_. 0) sincos_id 1 0 0 \<and>
   \<not> atom_touches ((\<lambda>_. 0)(vox 2 2 0 1 1 := 1)) 2 2 2 atom_011 (\<lambda>_. 0) sincos_id 1 0 0 \<and>
   interface ((\<lambda>_. 0)(vox 2 2 0 1 1 := 1)) 2 2 2 (\<lambda>_. Some ''10_A'') atom_011 1 (\<lambda>_. 0) sincos_id 1 0 =
     Some [None]"
proof -
  have "touches_within_grid ((\<lambda>_. 0)(vox 2 2 0 1 1 := 1)) 2 2 2 atom_011 (\<lambda>_. 0) sincos_id 1 0 0"
    by (simp add: touches_within_grid_def grid_coords_atom_011 voxels_def vox_def upto_unfold Let_def atom_011_def)
  moreover have "\<not> atom_touches ((\<lambda>_. 0)(vox 2 2 0 1 1 := 1)) 2 2 2 atom_011 (\<lambda>_. 0) sincos_id 1 0 0"
    by (simp add: atom_touches_def grid_coords_atom_011 box_atom_011 voxel_hit_def vox_def Let_def
        atom_011_def)
  moreover have "interface ((\<lambda>_. 0)(vox 2 2 0 1 1 := 1)) 2 2 2 (\<lambda>_. Some ''10_A'') atom_011 1 (\<lambda>_. 0) sincos_id 1 0 =
      Some [None]"
    by (simp add: interface_def interface_scan_def interface_atom_def grid_coords_atom_011 box_atom_011
        interface_voxel_def vox_def upto_unfold Let_def atom_011_def)
  ultimately show ?thesis by simp
qed

subsection \<open>Claims on the flood-fill pruner\<close>

text \<open>
  Claim C1. On a grid that enters \<^verbatim>\<open>filter_enclosed_regions\<close> with no tag above \<open>1\<close> (the
  tags after the surface extraction are \<open>0\<close>, \<open>1\<close> and \<open>-1\<close>), the function returns, and
  of the tags the clustering leaves: every voxel with cluster tag \<open>2\<close> ends with tag
  \<open>1\<close>, every voxel with a cluster tag above \<open>2\<close> ends with tag \<open>0\<close>, no voxel ends with a
  tag of \<open>2\<close> or more, and the voxels tagged \<open>0\<close> or \<open>-1\<close> before the conversion keep
  their tag.
\<close>

theorem filter_enclosed_regions_rewrites_tags:
  assumes "10000 \<le> fuel"
    and "\<forall>(i, j, k) \<in> set (voxels nx ny nz). g (vox ny nz i j k) \<le> 1"
  shows "\<exists>p g'. cluster fuel g points0 nx ny nz = Some p \<and>
           filter_enclosed_regions fuel g points0 nx ny nz = Some g' \<and>
           (\<forall>(i, j, k) \<in> set (voxels nx ny nz).
              (grid (glob p) (vox ny nz i j k) = 2 \<longrightarrow> g' (vox ny nz i j k) = 1) \<and>
              (grid (glob p) (vox ny nz i j k) > 2 \<longrightarrow> g' (vox ny nz i j k) = 0) \<and>
              g' (vox ny nz i j k) < 2 \<and>
              (grid (glob p) (vox ny nz i j k) = 0 \<or> grid (glob p) (vox ny nz i j k) = - 1 \<longrightarrow>
                 g' (vox ny nz i j k) = grid (glob p) (vox ny nz i j k)))"
proof -
  from cluster_total[OF assms(1), of g points0 nx ny nz] obtain p where
    p: "cluster fuel g points0 nx ny nz = Some p" "1 \<le> tag p" "tag p = 1 \<longrightarrow> grid (glob p) = g"
    by blast
  let ?g' = "if tag p > 1 then fold (convert_tag ny nz) (voxels nx ny nz) (grid (glob p))
             else grid (glob p)"
  have f: "filter_enclosed_regions fuel g points0 nx ny nz = Some ?g'"
    by (simp add: filter_enclosed_regions_def p(1))
  have "(grid (glob p) (vox ny nz i j k) = 2 \<longrightarrow> ?g' (vox ny nz i j k) = 1) \<and>
        (grid (glob p) (vox ny nz i j k) > 2 \<longrightarrow> ?g' (vox ny nz i j k) = 0) \<and>
        ?g' (vox ny nz i j k) < 2 \<and>
        (grid (glob p) (vox ny nz i j k) = 0 \<or> grid (glob p) (vox ny nz i j k) = - 1 \<longrightarrow>
           ?g' (vox ny nz i j k) = grid (glob p) (vox ny nz i j k))"
    if v: "(i, j, k) \<in> set (voxels nx ny nz)" for i j k
  proof (cases "tag p > 1")
    case True
    have "vox ny nz i j k \<in> (\<lambda>(i, j, k). vox ny nz i j k) ` set (voxels nx ny nz)"
      using v by force
    then have "?g' (vox ny nz i j k) = converted (grid (glob p) (vox ny nz i j k))"
      using True by (simp add: fold_convert_tag)
    then show ?thesis by (simp add: converted_def)
  next
    case False
    then have "grid (glob p) = g" using p by simp
    moreover have "g (vox ny nz i j k) \<le> 1" using assms(2) v by blast
    ultimately show ?thesis using False by simp
  qed
  then show ?thesis using p(1) f by blast
qed

theorem filter_enclosed_regions_rewrites_tags_witness:
  "(\<exists>p g'. cluster 10000 two_pockets 0 3 3 5 = Some p \<and>
           filter_enclosed_regions 10000 two_pockets 0 3 3 5 = Some g' \<and>
           (\<forall>(i, j, k) \<in> set (voxels 3 3 5).
              (grid (glob p) (vox 3 5 i j k) = 2 \<longrightarrow> g' (vox 3 5 i j k) = 1) \<and>
              (grid (glob p) (vox 3 5 i j k) > 2 \<longrightarrow> g' (vox 3 5 i j k) = 0) \<and>
              g' (vox 3 5 i j k) < 2 \<and>
              (grid (glob p) (vox 3 5 i j k) = 0 \<or> grid (glob p) (vox 3 5 i j k) = - 1 \<longrightarrow>
                 g' (vox 3 5 i j k) = grid (glob p) (vox 3 5 i j k)))) \<and>
   filter_enclosed_regions 10000 two_pockets 0 3 3 5 = Some (grid_zeros(vox 3 5 1 1 1 := 1))"
proof -
  have "(10000::nat) \<le> 10000" by simp
  from filter_enclosed_regions_rewrites_tags[OF this two_pockets_le_1, of 0]
  show ?thesis using filter_enclosed_regions_two_pockets by blast
qed

text \<open>
  Claim C2 says that the scan increments \<^verbatim>\<open>tag\<close> only at a voxel of tag \<open>1\<close> off the
  outer faces and leaves \<^verbatim>\<open>tag\<close> unchanged at every voxel on a face. The scan (line 476)
  tests the tag of the voxel alone: at the corner \<open>(0, 0, 0)\<close> of a \<open>3 \<times> 3 \<times> 3\<close> grid,
  tagged \<open>1\<close>, \<^verbatim>\<open>tag\<close> goes from \<open>1\<close> to \<open>2\<close>, so the cluster of the center gets tag \<open>3\<close>
  and is discarded.
\<close>

theorem tag_incremented_on_face_counterexample:
  "on_face 3 3 3 (0, 0, 0) \<and>
   cluster_voxel 10000 3 3 3 (0, 0, 0)
     \<lparr>glob = \<lparr>grid = corner_and_center, points = 0, big = 0\<rparr>, tag = 1, aux = 0\<rparr> =
   Some \<lparr>glob = \<lparr>grid = corner_and_center, points = 0, big = 0\<rparr>, tag = 2, aux = 0\<rparr> \<and>
   filter_enclosed_regions 10000 corner_and_center 0 3 3 3 = Some (grid_zeros(vox 3 3 0 0 0 := 1))"
  by (simp add: on_face_def cluster_voxel_corner filter_enclosed_regions_corner)

text \<open>
  Claim C2, amended. At every scanned voxel of tag \<open>1\<close>, on an outer face or not, \<^verbatim>\<open>tag\<close>
  is incremented and the marker is invoked on the voxel with the new tag and \<^verbatim>\<open>points\<close>
  at \<open>0\<close>; at any other voxel nothing changes. The marker and the loop after it only
  turn voxels of tag \<open>1\<close> into the new tag, and the voxels the marker has tagged keep the
  tag; when the marker has not spent its budget, the grid is as the marker left it. For
  a voxel on an outer face the marker returns at once, so the grid is as before and the
  voxel keeps tag \<open>1\<close>; a voxel off the outer faces carries the new tag afterwards.
  \<^verbatim>\<open>big\<close> is \<open>0\<close> again after each voxel, as it is when the scan starts.
\<close>

theorem cluster_voxel_counts_every_candidate:
  assumes "10000 \<le> fuel" and "(i, j, k) \<in> set (voxels nx ny nz)" and "big (glob p) = 0"
  shows "\<exists>p'. cluster_voxel fuel nx ny nz (i, j, k) p = Some p' \<and> big (glob p') = 0 \<and>
           (grid (glob p) (vox ny nz i j k) \<noteq> 1 \<longrightarrow> p' = p) \<and>
           (grid (glob p) (vox ny nz i j k) = 1 \<longrightarrow>
              tag p' = tag p + 1 \<and>
              (\<exists>s. flood_and_fill fuel nx ny nz (tag p + 1) (i, j, k) ((glob p)\<lparr>points := 0\<rparr>) = Some s \<and>
                   tagged_from (tag p + 1) (grid s) (grid (glob p')) \<and>
                   (big s = 0 \<longrightarrow> grid (glob p') = grid s)) \<and>
              tagged_from (tag p + 1) (grid (glob p)) (grid (glob p')) \<and>
              (on_face nx ny nz (i, j, k) \<longrightarrow> grid (glob p') = grid (glob p)) \<and>
              (\<not> on_face nx ny nz (i, j, k) \<longrightarrow> grid (glob p') (vox ny nz i j k) = tag p + 1))"
proof -
  from cluster_voxel_total[OF assms] obtain p' where
    p': "cluster_voxel fuel nx ny nz (i, j, k) p = Some p'" "big (glob p') = 0"
    "grid (glob p) (vox ny nz i j k) \<noteq> 1 \<longrightarrow> p' = p"
    "on_face nx ny nz (i, j, k) \<longrightarrow> grid (glob p') = grid (glob p)"
    by auto
  have "tag p' = tag p + 1 \<and>
        (\<exists>s. flood_and_fill fuel nx ny nz (tag p + 1) (i, j, k) ((glob p)\<lparr>points := 0\<rparr>) = Some s \<and>
             tagged_from (tag p + 1) (grid s) (grid (glob p')) \<and>
             (big s = 0 \<longrightarrow> grid (glob p') = grid s)) \<and>
        tagged_from (tag p + 1) (grid (glob p)) (grid (glob p')) \<and>
        (\<not> on_face nx ny nz (i, j, k) \<longrightarrow> grid (glob p') (vox ny nz i j k) = tag p + 1)"
    if one: "grid (glob p) (vox ny nz i j k) = 1"
    using cluster_voxel_marks[OF p'(1) one assms(3)] by blast
  then show ?thesis using p' by blast
qed

theorem cluster_voxel_counts_every_candidate_witness:
  "(\<exists>p'. cluster_voxel 10000 3 3 3 (0, 0, 0)
            \<lparr>glob = \<lparr>grid = corner_and_center, points = 0, big = 0\<rparr>, tag = 1, aux = 0\<rparr> = Some p' \<and>
          big (glob p') = 0 \<and> tag p' = 2 \<and> grid (glob p') = corner_and_center) \<and>
   (\<exists>p'. cluster_voxel 10000 3 3 3 (1, 1, 1)
            \<lparr>glob = \<lparr>grid = corner_and_center, points = 0, big = 0\<rparr>, tag = 2, aux = 0\<rparr> = Some p' \<and>
          big (glob p') = 0 \<and> tag p' = 3 \<and> grid (glob p') (vox 3 3 1 1 1) = 3)"
proof -
  have h: "(10000::nat) \<le> 10000" "(0, 0, 0) \<in> set (voxels 3 3 3)" "(1, 1, 1) \<in> set (voxels 3 3 3)"
    "big (glob \<lparr>glob = \<lparr>grid = corner_and_center, points = 0, big = 0\<rparr>, tag = 1, aux = 0\<rparr>) = 0"
    "big (glob \<lparr>glob = \<lparr>grid = corner_and_center, points = 0, big = 0\<rparr>, tag = 2, aux = 0\<rparr>) = 0"
    by (simp_all add: set_voxels)
  have c: "corner_and_center (vox 3 3 0 0 0) = 1" "corner_and_center (vox 3 3 1 1 1) = 1"
    "on_face 3 3 3 (0, 0, 0)" "\<not> on_face 3 3 3 (1, 1, 1)"
    by (simp_all add: corner_and_center_def vox_def on_face_def)
  from cluster_voxel_counts_every_candidate[OF h(1) h(2) h(4)]
    cluster_voxel_counts_every_candidate[OF h(1) h(3) h(5)]
  show ?thesis using c by (simp del: One_nat_def) blast
qed

text \<open>
  On a grid of positive extents \<^verbatim>\<open>while (big)\<close> runs its body at most once: \<^verbatim>\<open>big\<close> is
  cleared at every voxel of the rescan, and the last voxel rescanned,
  \<open>(nx - 1, ny - 1, nz - 1)\<close>, lies on an outer face, where the marker returns at once.
\<close>

lemma big_loop_is_one_rescan:
  assumes "10000 \<le> fuel" and "0 < nx" "0 < ny" "0 < nz"
  shows "\<exists>p'. foldM (rescan_voxel fuel nx ny nz) (voxels nx ny nz) (p\<lparr>aux := 0\<rparr>) = Some p' \<and>
           big (glob p') = 0 \<and>
           big_loop fuel fuel nx ny nz p = (if big (glob p) \<noteq> 0 then Some p' else Some p)"
proof -
  obtain n where n: "fuel = Suc (Suc n)" using assms(1) by (cases fuel; cases "fuel - 1") auto
  from rescan_total[OF assms, of "p\<lparr>aux := 0\<rparr>"] obtain p' where
    p': "foldM (rescan_voxel fuel nx ny nz) (voxels nx ny nz) (p\<lparr>aux := 0\<rparr>) = Some p'"
    "big (glob p') = 0"
    by auto
  have "big_loop fuel fuel nx ny nz p = (if big (glob p) \<noteq> 0 then Some p' else Some p)"
    using big_loop_once[OF assms, of n p] n p'(1) by simp
  then show ?thesis using p' by blast
qed

text \<open>
  Claim C3 says that the completion loop rescans until a full rescan finds nothing to
  resume, so that no voxel of tag \<open>1\<close> off the outer faces is left next to the cluster
  when its processing ends. The loop is \<^verbatim>\<open>while (big)\<close>, and \<^verbatim>\<open>big\<close> is cleared before each
  voxel of the rescan, so the loop sees the last voxel only and ends after one rescan.
  On the grid \<open>snake\<close> the marker started at \<open>(1, 1, 20001)\<close> runs down the line and stops
  at \<open>(1, 2, 10002)\<close> with its budget spent; the one rescan resumes it at \<open>(1, 2, 10001)\<close>,
  where it runs down to \<open>(1, 2, 2)\<close> and stops again. The voxel \<open>(1, 2, 1)\<close>, off the
  outer faces and next to \<open>(1, 2, 2)\<close> of tag \<open>2\<close>, still has tag \<open>1\<close> when the processing
  of the cluster ends; the scan later makes it a cluster of its own, and
  \<^verbatim>\<open>filter_enclosed_regions\<close> discards it while it keeps its neighbour.
\<close>

theorem completion_loop_leaves_cluster_incomplete:
  "cluster_voxel 10000 3 4 20003 (1, 1, 20001)
     \<lparr>glob = \<lparr>grid = snake, points = 0, big = 0\<rparr>, tag = 1, aux = 0\<rparr> =
   Some \<lparr>glob = \<lparr>grid = snake_clustered, points = 20000, big = 0\<rparr>, tag = 2, aux = 20000\<rparr> \<and>
   \<not> on_face 3 4 20003 (1, 2, 1) \<and>
   snake_clustered (vox 4 20003 1 2 1) = 1 \<and>
   (1, 2, 2) \<in> set (cube 1 2 1) \<and>
   snake_clustered (vox 4 20003 1 2 2) = 2 \<and>
   filter_enclosed_regions 10000 snake 0 3 4 20003 = Some snake_pruned \<and>
   snake_pruned (vox 4 20003 1 2 1) = 0 \<and>
   snake_pruned (vox 4 20003 1 2 2) = 1"
  by (simp add: cluster_voxel_snake filter_enclosed_regions_snake on_face_def)
    (simp add: snake_clustered_def snake_pruned_def vox_def cube_def)

subsection \<open>Claims on the surface operation\<close>

text \<open>
  Claim C8. With no atoms, a grid of \<open>nx * ny * nz\<close> cells and a positive step, the
  surface operation returns, every voxel of the grid carries \<open>-1\<close> (the tag that
  \<^verbatim>\<open>define_surface_points\<close> documents as a solvent point), and \<^verbatim>\<open>_interface\<close> on that grid
  returns the array that holds \<^verbatim>\<open>NULL\<close> alone.
\<close>

theorem surface_empty_atoms:
  assumes "natoms = 0" and "sz = nx * ny * nz" and "0 < step"
  shows "\<exists>g'. surface fuel g points0 sz nx ny nz atoms natoms reference sincos step probe is_ses = Some g' \<and>
           (\<forall>(i, j, k) \<in> set (voxels nx ny nz). g' (vox ny nz i j k) = - 1) \<and>
           interface g' nx ny nz pdb atoms natoms reference sincos step probe = Some [None]"
proof -
  have "natoms \<le> 0" "nx * ny * nz \<le> sz" using assms by simp_all
  from surface_no_atoms[OF this, of fuel g points0 atoms reference sincos step probe is_ses]
  obtain g' where "surface fuel g points0 sz nx ny nz atoms natoms reference sincos step probe is_ses = Some g'"
    "\<forall>(i, j, k) \<in> set (voxels nx ny nz). g' (vox ny nz i j k) = - 1" by blast
  moreover have "interface g' nx ny nz pdb atoms natoms reference sincos step probe = Some [None]"
    using assms(1) by (simp add: interface_no_atoms)
  ultimately show ?thesis by blast
qed

theorem surface_empty_atoms_witness:
  "\<exists>g'. surface 10000 grid_zeros 0 27 3 3 3 atoms_3 0 origin sincos_id 1 (7 / 5) 1 = Some g' \<and>
         (\<forall>(i, j, k) \<in> set (voxels 3 3 3). g' (vox 3 3 i j k) = - 1) \<and>
         interface g' 3 3 3 pdb_3 atoms_3 0 origin sincos_id 1 (7 / 5) = Some [None]"
proof -
  have "(0::int) = 0" "(27::int) = 3 * 3 * 3" "(0::real) < 1" by simp_all
  from surface_empty_atoms[OF this] show ?thesis .
qed

text \<open>
  Claim C9 asks for a degenerate-input error when \<open>nx\<close>, \<open>ny\<close>, \<open>nz\<close>, \<open>step\<close> or
  \<open>nthreads\<close> is not positive or \<open>natoms\<close> is negative. \<^verbatim>\<open>_surface\<close> returns \<^verbatim>\<open>void\<close> and
  tests none of its arguments: with \<open>nx = ny = nz = 0\<close>, \<open>step = -1\<close> and \<open>natoms = -1\<close>
  it returns as on any other input, the grid untouched.
\<close>

theorem surface_accepts_degenerate_input_counterexample:
  "surface 10000 grid_zeros 0 0 0 0 0 atoms_3 (- 1) origin sincos_id (- 1) 0 1 = Some grid_zeros"
proof -
  have "igrid grid_zeros 0 = grid_zeros" by (simp add: fun_eq_iff igrid_apply)
  moreover have "atoms_defined atoms_3 (- 1) origin sincos_id (- 1) 0"
    by (simp add: atoms_defined_no_atoms)
  ultimately show ?thesis
    using surface_no_dims[of 0 0 0 atoms_3 "- 1" origin sincos_id "- 1" 0 10000 grid_zeros 0 0 1]
    by simp
qed

text \<open>
  Claim C9, amended. The surface operation raises no error on a degenerate input: it
  tests none of its arguments. Where the loops around the atoms have a value, and the
  conversion of line 160 when \<^verbatim>\<open>ses\<close> is called:

  \<^item> when \<open>nx\<close>, \<open>ny\<close> or \<open>nz\<close> is not positive, whatever \<open>step\<close> is, no loop over the
    voxels runs its body and the operation returns the grid as \<^verbatim>\<open>igrid\<close> left it;
  \<^item> when \<open>natoms\<close> is negative no loop around an atom runs and the operation returns
    what it returns for \<open>natoms = 0\<close>, which on a grid of \<open>nx * ny * nz\<close> cells is the grid
    with \<open>-1\<close> at every voxel;
  \<^item> when \<open>step\<close> is not positive and \<open>probe\<close> plus the radius is negative for no atom,
    no atom fills a voxel, and on a grid of \<open>nx * ny * nz\<close> cells the operation returns
    the grid with \<open>-1\<close> at every voxel as well.

  The parameter \<open>nthreads\<close> goes to OpenMP only and is not in the model.
\<close>

theorem surface_degenerate_input_result:
  assumes "atoms_defined atoms natoms reference sincos step probe"
    and "is_ses = 0 \<or> aux_defined step probe"
  shows "(nx \<le> 0 \<or> ny \<le> 0 \<or> nz \<le> 0 \<longrightarrow>
            surface fuel g points0 sz nx ny nz atoms natoms reference sincos step probe is_ses =
              Some (igrid g sz)) \<and>
         (natoms < 0 \<longrightarrow>
            surface fuel g points0 sz nx ny nz atoms natoms reference sincos step probe is_ses =
            surface fuel g points0 sz nx ny nz atoms 0 reference sincos step probe is_ses) \<and>
         ((natoms < 0 \<or>
           (step \<le> 0 \<and> (\<forall>a. 0 \<le> a \<and> a < natoms \<longrightarrow> 0 \<le> probe + atoms (3 + (a * 4))))) \<and>
          sz = nx * ny * nz \<longrightarrow>
            (\<exists>g'. surface fuel g points0 sz nx ny nz atoms natoms reference sincos step probe is_ses =
                    Some g' \<and>
                  (\<forall>(i, j, k) \<in> set (voxels nx ny nz). g' (vox ny nz i j k) = - 1)))"
proof -
  have "surface fuel g points0 sz nx ny nz atoms natoms reference sincos step probe is_ses =
          Some (igrid g sz)" if "nx \<le> 0 \<or> ny \<le> 0 \<or> nz \<le> 0"
    by (rule surface_no_dims[OF that assms(1)])
  moreover have "surface fuel g points0 sz nx ny nz atoms natoms reference sincos step probe is_ses =
      surface fuel g points0 sz nx ny nz atoms 0 reference sincos step probe is_ses" if "natoms < 0"
    using that by (simp add: surface_def fill_no_atoms)
  moreover have "\<exists>g'. surface fuel g points0 sz nx ny nz atoms natoms reference sincos step probe is_ses =
                        Some g' \<and>
                      (\<forall>(i, j, k) \<in> set (voxels nx ny nz). g' (vox ny nz i j k) = - 1)"
    if h: "natoms < 0 \<or>
           (step \<le> 0 \<and> (\<forall>a. 0 \<le> a \<and> a < natoms \<longrightarrow> 0 \<le> probe + atoms (3 + (a * 4))))"
      and sz: "sz = nx * ny * nz"
  proof -
    have "fill (igrid g sz) nx ny nz atoms natoms reference sincos step probe = Some (igrid g sz)"
    proof (cases "natoms \<le> 0")
      case True
      then show ?thesis by (rule fill_no_atoms)
    next
      case False
      then have st: "step \<le> 0"
        and r: "\<forall>a. 0 \<le> a \<and> a < natoms \<longrightarrow> 0 \<le> probe + atoms (3 + (a * 4))"
        using h by auto
      have "step \<noteq> 0" using atoms_defined_step[OF assms(1)] False by blast
      then have "step < 0" using st by simp
      then show ?thesis by (rule fill_negative_step[OF assms(1) _ r])
    qed
    then show ?thesis by (rule surface_nothing_filled) (simp add: sz)
  qed
  ultimately show ?thesis by blast
qed

theorem surface_degenerate_input_result_witness:
  "atoms_defined atoms_3 3 origin sincos_id (- 1) 0 \<and>
   aux_defined (- 1) 0 \<and>
   surface 10000 grid_zeros 0 8 0 2 2 atoms_3 3 origin sincos_id (- 1) 0 1 = Some (igrid grid_zeros 8) \<and>
   (\<exists>g'. surface 10000 grid_zeros 0 27 3 3 3 atoms_3 3 origin sincos_id (- 1) 0 1 = Some g' \<and>
         list_all (\<lambda>(i, j, k). g' (vox 3 3 i j k) = - 1) (voxels 3 3 3)) \<and>
   (\<exists>g'. surface 10000 grid_zeros 0 8 2 2 2 atoms_3 (- 1) origin sincos_id 1 0 1 = Some g' \<and>
         list_all (\<lambda>(i, j, k). g' (vox 2 2 i j k) = - 1) (voxels 2 2 2)) \<and>
   surface 10000 grid_zeros 0 8 2 2 2 atoms_3 (- 1) origin sincos_id 1 0 1 =
   surface 10000 grid_zeros 0 8 2 2 2 atoms_3 0 origin sincos_id 1 0 1"
proof -
  have d: "atoms_defined atoms_3 3 origin sincos_id (- 1) 0"
    by (simp add: atoms_defined_def atom_defined_def origin_def grid_coords_def sincos_id_def
        upto_unfold atoms_3_def box_def for_values_def int_min_def int_max_def)
  have a: "aux_defined (- 1) 0" "aux_defined 1 0"
    by (simp_all add: aux_defined_def int_min_def int_max_def)
  have e: "atoms_defined atoms_3 (- 1) origin sincos_id 1 0"
    by (simp add: atoms_defined_no_atoms)
  have ar: "(0::int) \<le> 0 \<or> (2::int) \<le> 0 \<or> (2::int) \<le> 0" "(- 1::int) < 0" "(8::int) = 2 * 2 * 2"
    "(27::int) = 3 * 3 * 3" "(- 1::real) \<le> 0"
    by simp_all
  have rad: "\<forall>a. 0 \<le> a \<and> a < 3 \<longrightarrow> 0 \<le> 0 + atoms_3 (3 + (a * 4))"
    by (simp add: atoms_3_def)
  from surface_degenerate_input_result[OF d disjI2[OF a(1)], where is_ses = 1 and nx = 0 and ny = 2
      and nz = 2 and fuel = 10000 and g = grid_zeros and ?points0.0 = 0 and sz = 8] ar(1)
  have 1: "surface 10000 grid_zeros 0 8 0 2 2 atoms_3 3 origin sincos_id (- 1) 0 1 =
             Some (igrid grid_zeros 8)"
    by blast
  from surface_degenerate_input_result[OF e disjI2[OF a(2)], where is_ses = 1 and nx = 2 and ny = 2
      and nz = 2 and fuel = 10000 and g = grid_zeros and ?points0.0 = 0 and sz = 8] ar(2,3)
  have 2: "surface 10000 grid_zeros 0 8 2 2 2 atoms_3 (- 1) origin sincos_id 1 0 1 =
             surface 10000 grid_zeros 0 8 2 2 2 atoms_3 0 origin sincos_id 1 0 1"
    and 3: "\<exists>g'. surface 10000 grid_zeros 0 8 2 2 2 atoms_3 (- 1) origin sincos_id 1 0 1 = Some g' \<and>
                  (\<forall>(i, j, k) \<in> set (voxels 2 2 2). g' (vox 2 2 i j k) = - 1)"
    by blast+
  from surface_degenerate_input_result[OF d disjI2[OF a(1)], where is_ses = 1 and nx = 3 and ny = 3
      and nz = 3 and fuel = 10000 and g = grid_zeros and ?points0.0 = 0 and sz = 27] ar(4,5) rad
  have 4: "\<exists>g'. surface 10000 grid_zeros 0 27 3 3 3 atoms_3 3 origin sincos_id (- 1) 0 1 = Some g' \<and>
                 (\<forall>(i, j, k) \<in> set (voxels 3 3 3). g' (vox 3 3 i j k) = - 1)"
    by blast
  from 3 have 3: "\<exists>g'. surface 10000 grid_zeros 0 8 2 2 2 atoms_3 (- 1) origin sincos_id 1 0 1 = Some g' \<and>
                     list_all (\<lambda>(i, j, k). g' (vox 2 2 i j k) = - 1) (voxels 2 2 2)"
    unfolding list_all_iff .
  from 4 have 4: "\<exists>g'. surface 10000 grid_zeros 0 27 3 3 3 atoms_3 3 origin sincos_id (- 1) 0 1 = Some g' \<and>
                     list_all (\<lambda>(i, j, k). g' (vox 3 3 i j k) = - 1) (voxels 3 3 3)"
    unfolding list_all_iff .
  from d a(1) 1 2 3 4 show ?thesis by (simp only: simp_thms)
qed

subsection \<open>Claims on the SES adjustment\<close>

text \<open>
  Claim C6 asks the first pass of \<^verbatim>\<open>ses\<close> to set to \<open>-2\<close> every bulk voxel within the
  grid, index \<open>0\<close> included, that lies in the cube around a solvent voxel next to bulk and
  at distance below \<open>probe / step\<close> from it. The test of line 183 is
  \<^verbatim>\<open>i2 > 0 && j2 > 0 && k2 > 0\<close>, where \<^verbatim>\<open>check_protein_neighbours\<close> (line 131) and \<^verbatim>\<open>fill\<close>
  (line 96) accept the index \<open>0\<close>. On the \<open>2 \<times> 2 \<times> 2\<close> grid of bulk around the solvent
  voxel \<open>(1, 1, 1)\<close>, with \<open>probe / step = 2\<close>, the voxel \<open>(0, 1, 1)\<close> meets every condition
  of the claim and keeps tag \<open>0\<close>: the pass changes nothing.
\<close>

theorem ses_skips_index_zero:
  "lone_solvent (vox 2 2 1 1 1) = 1 \<and>
   check_protein_neighbours lone_solvent 2 2 2 1 1 1 = 1 \<and>
   (0, 1, 1) \<in> set (voxels 2 2 2) \<and>
   (0, 1, 1) \<in> set (around \<lceil>2 / 1\<rceil> 1 1 1) \<and>
   lone_solvent (vox 2 2 0 1 1) = 0 \<and>
   sqrt ((of_int (1 - 0))\<^sup>2 + (of_int (1 - 1))\<^sup>2 + (of_int (1 - 1))\<^sup>2) < 2 / 1 \<and>
   ses_pass_a lone_solvent 2 2 2 1 2 (vox 2 2 0 1 1) = 0 \<and>
   ses lone_solvent 2 2 2 1 2 = lone_solvent"
proof -
  have "check_protein_neighbours lone_solvent 2 2 2 1 1 1 = 1"
    by (simp add: check_protein_neighbours_def cube_def inside_def lone_solvent_def vox_def)
  moreover have "(0, 1, 1) \<in> set (around \<lceil>2 / 1\<rceil> 1 1 1)"
    unfolding around_def set_nest3 by simp
  moreover have "ses lone_solvent 2 2 2 1 2 = lone_solvent"
    by (simp add: fun_eq_iff ses_apply ses_pass_a_lone_solvent promoted_def) (simp add: lone_solvent_def)
  ultimately show ?thesis
    by (simp add: ses_pass_a_lone_solvent set_voxels) (simp add: lone_solvent_def vox_def)
qed

text \<open>
  Claim C7 says that \<^verbatim>\<open>ses\<close> applied twice equals \<^verbatim>\<open>ses\<close> applied once. On the column grid
  with \<open>probe / step = 2\<close> the first application turns \<open>(1, 1, 1)\<close> into solvent, which
  is then next to the bulk voxel \<open>(1, 1, 2)\<close>: the second application turns that one too.
\<close>

theorem ses_not_idempotent_counterexample:
  "ses (ses bulk_column 2 2 3 1 2) 2 2 3 1 2 \<noteq> ses bulk_column 2 2 3 1 2"
proof
  assume "ses (ses bulk_column 2 2 3 1 2) 2 2 3 1 2 = ses bulk_column 2 2 3 1 2"
  then have "(bulk_column(vox 2 3 1 1 1 := 1, vox 2 3 1 1 2 := 1)) (vox 2 3 1 1 2) =
             (bulk_column(vox 2 3 1 1 1 := 1)) (vox 2 3 1 1 2)"
    by (simp only: ses_bulk_column ses_ses_bulk_column)
  then show False by (simp add: bulk_column_def vox_def)
qed

text \<open>
  Claim C7, amended. After \<^verbatim>\<open>ses\<close> no voxel of the grid carries \<open>-2\<close>. When the probe is no
  larger than the step, no voxel but the center lies at distance below \<open>probe / step\<close>,
  the first pass writes nothing, and \<^verbatim>\<open>ses\<close> applied twice equals \<^verbatim>\<open>ses\<close> applied once.
\<close>

theorem ses_idempotent_small_probe:
  "(\<forall>(i, j, k) \<in> set (voxels nx ny nz). ses g nx ny nz step probe (vox ny nz i j k) \<noteq> - 2) \<and>
   (0 < step \<and> probe \<le> step \<longrightarrow>
      ses (ses g nx ny nz step probe) nx ny nz step probe = ses g nx ny nz step probe)"
proof -
  have "ses g nx ny nz step probe (vox ny nz i j k) \<noteq> - 2" if "(i, j, k) \<in> set (voxels nx ny nz)" for i j k
  proof -
    have "vox ny nz i j k \<in> (\<lambda>(i, j, k). vox ny nz i j k) ` set (voxels nx ny nz)"
      using that by force
    then show ?thesis by (simp add: ses_apply promoted_def)
  qed
  moreover have "ses (ses g nx ny nz step probe) nx ny nz step probe = ses g nx ny nz step probe"
    if "0 < step" "probe \<le> step"
  proof -
    have "probe / step \<le> 1" using that by simp
    then show ?thesis by (rule ses_small_probe)
  qed
  ultimately show ?thesis by blast
qed

theorem ses_idempotent_small_probe_witness:
  "ses bulk_column 2 2 3 1 1 (vox 2 3 1 1 1) \<noteq> - 2 \<and>
   ses (ses bulk_column 2 2 3 1 1) 2 2 3 1 1 = ses bulk_column 2 2 3 1 1"
proof -
  have "(1, 1, 1) \<in> set (voxels 2 2 3)" "(0::real) < 1 \<and> (1::real) \<le> 1"
    by (simp_all add: set_voxels)
  with ses_idempotent_small_probe[of 2 2 3 bulk_column 1 1] show ?thesis by blast
qed

end
